theory Spec2Isabelle
  imports Main "HOL-Library.Word"
begin

section \<open>Data model\<close>

text \<open>
  Device and scope indices are \<open>size_t\<close> values. The sentinel \<open>kUndefinedDevIdx\<close> is
  \<open>-1UL\<close>, the largest 64-bit value; it lives in the same type as the real indices.
\<close>

type_synonym size_t = "64 word"

definition kUndefinedDevIdx :: size_t where
  "kUndefinedDevIdx = - 1"

definition kMultiDeviceOps :: "string set" where
  "kMultiDeviceOps =
     {''sync_batch_norm'', ''sync_batch_norm_grad'', ''allreduce'', ''c_allreduce_sum'',
      ''c_allreduce_prod'', ''c_allreduce_min'', ''c_allreduce_max'', ''c_allgather'',
      ''c_reducescatter'', ''c_broadcast'', ''c_comm_init'', ''c_comm_init_all'',
      ''c_gen_nccl_id'', ''c_sync_comm_stream'', ''send'', ''recv'', ''send_barrier'',
      ''fetch_barrier''}"

text \<open>
  Modelled from the spec: the graph, node, op-handle, var-handle and program-description
  classes are declared outside this file. Handles are heap objects referred to by address;
  an address is a natural number, and the heap maps each address to the object stored there.
  The node of a handle is identified with the handle's address (\<open>op->Node()\<close> is
  \<open>OpNode op\<close>, \<open>var->Node()\<close> is \<open>VarNode var\<close>), which is the one-to-one wrapping of
  nodes by handles that the graph format maintains.
\<close>

type_synonym op_id = nat
type_synonym var_id = nat

datatype node = OpNode op_id | VarNode var_id | PlainNode nat

text \<open>
  Modelled from the spec: the operator of a compute op handle, with its type name and its
  attribute map. An operator carries an attribute of a name or not, and an attribute is a
  boolean or a value of another type.
\<close>

datatype attribute = BoolAttr bool | NonBoolAttr

record operator =
  Type :: string
  Attrs :: "string \<rightharpoonup> attribute"

text \<open>The dynamic type of an op handle, with the scope index the three known kinds record.\<close>

datatype op_kind =
    ComputationOpHandle operator size_t
  | EagerDeletionOpHandle size_t
  | ShareTensorBufferOpHandle size_t
  | OtherOpHandle

record OpHandleBase =
  kind :: op_kind
  Inputs :: "var_id list"
  Outputs :: "var_id list"

text \<open>The dynamic type of a var handle: a named variable with its scope index, or a dummy.\<close>

datatype var_kind = VarHandle size_t | DummyVarHandle

record VarHandleBase =
  vkind :: var_kind
  Name :: string
  GeneratedOp :: "op_id option"
  PendingOps :: "op_id list"

record heap =
  op_at :: "op_id \<Rightarrow> OpHandleBase"
  var_at :: "var_id \<Rightarrow> VarHandleBase"

type_synonym OpDesc = string
type_synonym BlockDesc = "OpDesc list"
type_synonym ProgramDesc = "BlockDesc list"

type_synonym GraphVars = "(string \<rightharpoonup> var_id list) list"
type_synonym GraphDepVars = "var_id set"

datatype graph_attr =
    GraphVarsAttr GraphVars
  | GraphDepVarsAttr GraphDepVars
  | ProgramDescsAttr "ProgramDesc list"
  | FusedVarsAttr "string list"

record graph =
  OriginProgram :: ProgramDesc
  Nodes :: "node list"
  attrs :: "string \<rightharpoonup> graph_attr"

datatype error =
    NoPlaceFound
  | OutOfRange
  | IndexOutOfBounds
  | AttrNotFound
  | AttrTypeMismatch
  | AttrAlreadyExists
  | NodeNotExist
  | NodeAlreadyExists

text \<open>
  Modelled from the spec: the names of the side-tables, constants of the header: the
  per-device variable mapping, the set of placeholder variables, the program-description
  list and the fused-variable table. Only their being four different names matters.
\<close>

definition kGraphVars :: string where "kGraphVars = ''vars''"
definition kGraphDepVars :: string where "kGraphDepVars = ''dep_vars''"
definition kProgramDescs :: string where "kProgramDescs = ''program_descs''"
definition kFusedVars :: string where "kFusedVars = ''fused_vars''"

subsection \<open>Graph operations\<close>

text \<open>
  Modelled from the spec: the member functions of the graph class. A graph owns its nodes
  and its side-tables. Removing a node that is not there, adding one that is, reading or
  erasing a side-table that is missing, reading one at another type and setting one that
  exists fail; each failure is an error value here.
\<close>

definition RemoveNode :: "graph \<Rightarrow> node \<Rightarrow> error + graph" where
  "RemoveNode g n =
     (if n \<in> set (Nodes g) then Inr (g\<lparr>Nodes := removeAll n (Nodes g)\<rparr>)
      else Inl NodeNotExist)"

definition AddNode :: "graph \<Rightarrow> node \<Rightarrow> error + graph" where
  "AddNode g n =
     (if n \<in> set (Nodes g) then Inl NodeAlreadyExists
      else Inr (g\<lparr>Nodes := Nodes g @ [n]\<rparr>))"

definition Has :: "graph \<Rightarrow> string \<Rightarrow> bool" where
  "Has g name = (attrs g name \<noteq> None)"

definition Set_attr :: "graph \<Rightarrow> string \<Rightarrow> graph_attr \<Rightarrow> error + graph" where
  "Set_attr g name a =
     (if Has g name then Inl AttrAlreadyExists
      else Inr (g\<lparr>attrs := (attrs g)(name \<mapsto> a)\<rparr>))"

definition Erase :: "graph \<Rightarrow> string \<Rightarrow> error + graph" where
  "Erase g name =
     (if Has g name then Inr (g\<lparr>attrs := (attrs g)(name := None)\<rparr>)
      else Inl AttrNotFound)"

definition Get_GraphVars :: "graph \<Rightarrow> string \<Rightarrow> error + GraphVars" where
  "Get_GraphVars g name =
     (case attrs g name of
        None \<Rightarrow> Inl AttrNotFound
      | Some (GraphVarsAttr v) \<Rightarrow> Inr v
      | Some _ \<Rightarrow> Inl AttrTypeMismatch)"

definition Get_GraphDepVars :: "graph \<Rightarrow> string \<Rightarrow> error + GraphDepVars" where
  "Get_GraphDepVars g name =
     (case attrs g name of
        None \<Rightarrow> Inl AttrNotFound
      | Some (GraphDepVarsAttr v) \<Rightarrow> Inr v
      | Some _ \<Rightarrow> Inl AttrTypeMismatch)"

text \<open>
  Modelled from the spec: \<open>new ir::Graph(ProgramDesc())\<close>, the empty graph of the empty
  program (one block without operators): no node and no side-table.
\<close>

definition new_Graph :: graph where
  "new_Graph = \<lparr>OriginProgram = [[]], Nodes = [], attrs = Map.empty\<rparr>"

text \<open>
  Modelled from the spec: \<open>FilterByNodeWrapper<OpHandleBase>\<close>, the op handles that wrap
  nodes of the graph, in the iteration order of the node container (the order of the list).
\<close>

fun FilterByNodeWrapper :: "node list \<Rightarrow> op_id list" where
  "FilterByNodeWrapper [] = []"
| "FilterByNodeWrapper (OpNode op # ns) = op # FilterByNodeWrapper ns"
| "FilterByNodeWrapper (_ # ns) = FilterByNodeWrapper ns"

text \<open>
  Modelled from the spec: \<open>CopyGraphAttrIfExists<ProgramDescs>\<close> and
  \<open>CopyGraphAttrIfExists<FusedVars>\<close>. When the source has the side-table, it is read at its
  type and a copy is set on the destination.
\<close>

definition CopyGraphAttrIfExists_ProgramDescs :: "graph \<Rightarrow> graph \<Rightarrow> string \<Rightarrow> error + graph" where
  "CopyGraphAttrIfExists_ProgramDescs src dst name =
     (if Has src name then
        (case attrs src name of
           Some (ProgramDescsAttr a) \<Rightarrow> Set_attr dst name (ProgramDescsAttr a)
         | _ \<Rightarrow> Inl AttrTypeMismatch)
      else Inr dst)"

definition CopyGraphAttrIfExists_FusedVars :: "graph \<Rightarrow> graph \<Rightarrow> string \<Rightarrow> error + graph" where
  "CopyGraphAttrIfExists_FusedVars src dst name =
     (if Has src name then
        (case attrs src name of
           Some (FusedVarsAttr a) \<Rightarrow> Set_attr dst name (FusedVarsAttr a)
         | _ \<Rightarrow> Inl AttrTypeMismatch)
      else Inr dst)"

section \<open>Device classification\<close>

definition GetScopeIdxFromOp :: "OpHandleBase \<Rightarrow> size_t" where
  "GetScopeIdxFromOp op =
     (case kind op of
        ComputationOpHandle compute_op scope_idx \<Rightarrow>
          (if Type compute_op \<notin> kMultiDeviceOps then scope_idx else kUndefinedDevIdx)
      | EagerDeletionOpHandle scope_idx \<Rightarrow> scope_idx
      | ShareTensorBufferOpHandle scope_idx \<Rightarrow> scope_idx
      | OtherOpHandle \<Rightarrow> kUndefinedDevIdx)"

fun block_has_multi_device_op :: "BlockDesc \<Rightarrow> bool" where
  "block_has_multi_device_op [] = False"
| "block_has_multi_device_op (op_desc # rest) =
     (if op_desc \<in> kMultiDeviceOps then True else block_has_multi_device_op rest)"

fun blocks_have_multi_device_op :: "BlockDesc list \<Rightarrow> bool" where
  "blocks_have_multi_device_op [] = False"
| "blocks_have_multi_device_op (b # bs) =
     (if block_has_multi_device_op b then True else blocks_have_multi_device_op bs)"

definition ContainMultiDeviceOp :: "ProgramDesc \<Rightarrow> nat \<Rightarrow> bool" where
  "ContainMultiDeviceOp program begin_block_idx =
     blocks_have_multi_device_op (drop begin_block_idx program)"

text \<open>The loop of \<open>GetUniqueDeviceIdOfOp\<close> over the inputs followed by the outputs.\<close>

fun in_outs_loop :: "heap \<Rightarrow> size_t \<Rightarrow> var_id list \<Rightarrow> size_t" where
  "in_outs_loop h dev_idx [] = dev_idx"
| "in_outs_loop h dev_idx (var # rest) =
     (case vkind (var_at h var) of
        DummyVarHandle \<Rightarrow> in_outs_loop h dev_idx rest
      | VarHandle scope_idx \<Rightarrow>
          (if dev_idx \<noteq> scope_idx then kUndefinedDevIdx else in_outs_loop h dev_idx rest))"

definition GetUniqueDeviceIdOfOp :: "heap \<Rightarrow> OpHandleBase \<Rightarrow> size_t" where
  "GetUniqueDeviceIdOfOp h op =
     (let dev_idx = GetScopeIdxFromOp op in
      if dev_idx = kUndefinedDevIdx then kUndefinedDevIdx
      else in_outs_loop h dev_idx (Inputs op @ Outputs op))"

section \<open>Separation into single-device graphs\<close>

text \<open>
  The first loop over the op handles: \<open>None\<close> is the early \<open>return {}\<close> at an undetermined
  op; otherwise the device count and the map \<open>op_to_dev_idx\<close>.
\<close>

fun classify_loop ::
  "heap \<Rightarrow> op_id list \<Rightarrow> size_t \<Rightarrow> (op_id \<rightharpoonup> size_t) \<Rightarrow> (size_t \<times> (op_id \<rightharpoonup> size_t)) option" where
  "classify_loop h [] place_num op_to_dev_idx = Some (place_num, op_to_dev_idx)"
| "classify_loop h (op # rest) place_num op_to_dev_idx =
     (let dev_idx = GetUniqueDeviceIdOfOp h (op_at h op) in
      if dev_idx = kUndefinedDevIdx then None
      else classify_loop h rest (max place_num (dev_idx + 1)) (op_to_dev_idx(op \<mapsto> dev_idx)))"

text \<open>The second loop: \<open>Inr False\<close> is the early \<open>return {}\<close> at a cross-device dependency.\<close>

fun inputs_same_device :: "heap \<Rightarrow> (op_id \<rightharpoonup> size_t) \<Rightarrow> size_t \<Rightarrow> var_id list \<Rightarrow> bool" where
  "inputs_same_device h op_to_dev_idx dev_idx [] = True"
| "inputs_same_device h op_to_dev_idx dev_idx (in_var # rest) =
     (case GeneratedOp (var_at h in_var) of
        None \<Rightarrow> inputs_same_device h op_to_dev_idx dev_idx rest
      | Some gen_op \<Rightarrow>
          (case op_to_dev_idx gen_op of
             None \<Rightarrow> False
           | Some d \<Rightarrow>
               (if d \<noteq> dev_idx then False
                else inputs_same_device h op_to_dev_idx dev_idx rest)))"

fun pending_same_device :: "(op_id \<rightharpoonup> size_t) \<Rightarrow> size_t \<Rightarrow> op_id list \<Rightarrow> bool" where
  "pending_same_device op_to_dev_idx dev_idx [] = True"
| "pending_same_device op_to_dev_idx dev_idx (pending_op # rest) =
     (case op_to_dev_idx pending_op of
        None \<Rightarrow> False
      | Some d \<Rightarrow>
          (if d \<noteq> dev_idx then False else pending_same_device op_to_dev_idx dev_idx rest))"

fun outputs_same_device :: "heap \<Rightarrow> (op_id \<rightharpoonup> size_t) \<Rightarrow> size_t \<Rightarrow> var_id list \<Rightarrow> bool" where
  "outputs_same_device h op_to_dev_idx dev_idx [] = True"
| "outputs_same_device h op_to_dev_idx dev_idx (out_var # rest) =
     (if pending_same_device op_to_dev_idx dev_idx (PendingOps (var_at h out_var))
      then outputs_same_device h op_to_dev_idx dev_idx rest else False)"

fun dependency_loop :: "heap \<Rightarrow> (op_id \<rightharpoonup> size_t) \<Rightarrow> op_id list \<Rightarrow> error + bool" where
  "dependency_loop h op_to_dev_idx [] = Inr True"
| "dependency_loop h op_to_dev_idx (op # rest) =
     (case op_to_dev_idx op of
        None \<Rightarrow> Inl OutOfRange
      | Some dev_idx \<Rightarrow>
          (if \<not> inputs_same_device h op_to_dev_idx dev_idx (Inputs (op_at h op)) then Inr False
           else if \<not> outputs_same_device h op_to_dev_idx dev_idx (Outputs (op_at h op))
           then Inr False
           else dependency_loop h op_to_dev_idx rest))"

text \<open>
  The freshly built destination graph: \<open>GraphVars(1UL)\<close> is one empty name table,
  \<open>GraphDepVars()\<close> the empty set.
\<close>

definition fresh_graph :: "error + graph" where
  "fresh_graph =
     (case Set_attr new_Graph kGraphVars (GraphVarsAttr [Map.empty]) of
        Inl e \<Rightarrow> Inl e
      | Inr g \<Rightarrow> Set_attr g kGraphDepVars (GraphDepVarsAttr {}))"

text \<open>
  \<open>ret_vars\<close> and \<open>ret_dummy_vars\<close> are references into the side-tables of the destination
  graph; \<open>emplace\<close> through them changes the destination graph and keeps an existing key.
\<close>

definition ret_vars_emplace :: "graph \<Rightarrow> string \<Rightarrow> var_id list \<Rightarrow> graph" where
  "ret_vars_emplace ret name handles =
     (case attrs ret kGraphVars of
        Some (GraphVarsAttr (ret_vars # others)) \<Rightarrow>
          ret\<lparr>attrs := (attrs ret)(kGraphVars \<mapsto>
            GraphVarsAttr ((if ret_vars name = None then ret_vars(name \<mapsto> handles) else ret_vars)
                           # others))\<rparr>
      | _ \<Rightarrow> ret)"

definition ret_dummy_vars_emplace :: "graph \<Rightarrow> var_id \<Rightarrow> graph" where
  "ret_dummy_vars_emplace ret var =
     (case attrs ret kGraphDepVars of
        Some (GraphDepVarsAttr ret_dummy_vars) \<Rightarrow>
          ret\<lparr>attrs := (attrs ret)(kGraphDepVars \<mapsto> GraphDepVarsAttr (insert var ret_dummy_vars))\<rparr>
      | _ \<Rightarrow> ret)"

text \<open>\<open>dst->AddNode(src->RemoveNode(n).release())\<close> on the pair (source, destination).\<close>

definition move_node :: "node \<Rightarrow> graph \<times> graph \<Rightarrow> error + graph \<times> graph" where
  "move_node n st =
     (case RemoveNode (fst st) n of
        Inl e \<Rightarrow> Inl e
      | Inr g1 \<Rightarrow>
          (case AddNode (snd st) n of
             Inl e \<Rightarrow> Inl e
           | Inr ret1 \<Rightarrow> Inr (g1, ret1)))"

text \<open>The \<open>handler\<close> lambda; the state is the source graph and the destination graph.\<close>

fun handler ::
  "heap \<Rightarrow> (string \<rightharpoonup> var_id list) \<Rightarrow> var_id list \<Rightarrow> graph \<times> graph \<Rightarrow> error + graph \<times> graph" where
  "handler h origin_vars [] st = Inr st"
| "handler h origin_vars (var # rest) st =
     (if VarNode var \<in> set (Nodes (fst st)) then
        (case move_node (VarNode var) st of
           Inl e \<Rightarrow> Inl e
         | Inr (g1, ret1) \<Rightarrow>
             (case vkind (var_at h var) of
                VarHandle _ \<Rightarrow>
                  (case origin_vars (Name (var_at h var)) of
                     None \<Rightarrow> Inl OutOfRange
                   | Some handles \<Rightarrow>
                       handler h origin_vars rest
                         (g1, ret_vars_emplace ret1 (Name (var_at h var)) handles))
              | DummyVarHandle \<Rightarrow>
                  handler h origin_vars rest (g1, ret_dummy_vars_emplace ret1 var)))
      else handler h origin_vars rest st)"

text \<open>\<open>graph.Get<GraphVars>(kGraphVars)[i]\<close>; an index past the end is an error here.\<close>

definition GraphVars_at :: "graph \<Rightarrow> nat \<Rightarrow> error + (string \<rightharpoonup> var_id list)" where
  "GraphVars_at g i =
     (case Get_GraphVars g kGraphVars of
        Inl e \<Rightarrow> Inl e
      | Inr v \<Rightarrow> (if i < length v then Inr (v ! i) else Inl IndexOutOfBounds))"

text \<open>The body of the transfer loop for one op handle and its device index.\<close>

definition transfer_op ::
  "heap \<Rightarrow> op_id \<Rightarrow> size_t \<Rightarrow> graph \<times> graph \<Rightarrow> error + graph \<times> graph" where
  "transfer_op h op dev_idx st =
     (case GraphVars_at (snd st) 0 of
        Inl e \<Rightarrow> Inl e
      | Inr _ \<Rightarrow>
     (case Get_GraphDepVars (snd st) kGraphDepVars of
        Inl e \<Rightarrow> Inl e
      | Inr _ \<Rightarrow>
     (case GraphVars_at (fst st) (unat dev_idx) of
        Inl e \<Rightarrow> Inl e
      | Inr origin_vars \<Rightarrow>
     (case move_node (OpNode op) st of
        Inl e \<Rightarrow> Inl e
      | Inr st1 \<Rightarrow>
     (case handler h origin_vars (Inputs (op_at h op)) st1 of
        Inl e \<Rightarrow> Inl e
      | Inr st2 \<Rightarrow> handler h origin_vars (Outputs (op_at h op)) st2)))))"

text \<open>The transfer loop; the state is the vector of destination graphs and the source graph.\<close>

fun transfer_loop ::
  "heap \<Rightarrow> (op_id \<rightharpoonup> size_t) \<Rightarrow> op_id list \<Rightarrow> graph list \<times> graph \<Rightarrow> error + graph list \<times> graph" where
  "transfer_loop h op_to_dev_idx [] st = Inr st"
| "transfer_loop h op_to_dev_idx (op # rest) st =
     (case op_to_dev_idx op of
        None \<Rightarrow> Inl OutOfRange
      | Some dev_idx \<Rightarrow>
          (if \<not> unat dev_idx < length (fst st) then Inl IndexOutOfBounds
           else
             (case transfer_op h op dev_idx (snd st, fst st ! unat dev_idx) of
                Inl e \<Rightarrow> Inl e
              | Inr (g1, ret1) \<Rightarrow>
                  transfer_loop h op_to_dev_idx rest ((fst st)[unat dev_idx := ret1], g1))))"

fun copy_attrs_loop :: "graph \<Rightarrow> graph list \<Rightarrow> error + graph list" where
  "copy_attrs_loop g [] = Inr []"
| "copy_attrs_loop g (dst # rest) =
     (case CopyGraphAttrIfExists_ProgramDescs g dst kProgramDescs of
        Inl e \<Rightarrow> Inl e
      | Inr dst1 \<Rightarrow>
          (case CopyGraphAttrIfExists_FusedVars g dst1 kFusedVars of
             Inl e \<Rightarrow> Inl e
           | Inr dst2 \<Rightarrow>
               (case copy_attrs_loop g rest of
                  Inl e \<Rightarrow> Inl e
                | Inr rest' \<Rightarrow> Inr (dst2 # rest'))))"

text \<open>
  The part of the function after the checks: build \<open>place_num\<close> graphs, transfer the nodes,
  erase the two side-tables of the source and copy the optional ones.
\<close>

definition construct_and_transfer ::
  "heap \<Rightarrow> graph \<Rightarrow> op_id list \<Rightarrow> size_t \<Rightarrow> (op_id \<rightharpoonup> size_t) \<Rightarrow> error + graph list \<times> graph" where
  "construct_and_transfer h g op_handles place_num op_to_dev_idx =
     (case fresh_graph of
        Inl e \<Rightarrow> Inl e
      | Inr fresh \<Rightarrow>
     (case transfer_loop h op_to_dev_idx op_handles (replicate (unat place_num) fresh, g) of
        Inl e \<Rightarrow> Inl e
      | Inr (graphs, g1) \<Rightarrow>
     (case Erase g1 kGraphVars of
        Inl e \<Rightarrow> Inl e
      | Inr g2 \<Rightarrow>
     (case Erase g2 kGraphDepVars of
        Inl e \<Rightarrow> Inl e
      | Inr g3 \<Rightarrow>
     (case copy_attrs_loop g3 graphs of
        Inl e \<Rightarrow> Inl e
      | Inr graphs' \<Rightarrow> Inr (graphs', g3))))))"

text \<open>
  The result is an error (an exception leaves the function), or the returned vector of
  graphs together with the input graph as the call leaves it. The state in which an
  exception leaves the graphs is not part of the result.
\<close>

definition TrySeparateToMultipleSingleDeviceGraphs ::
  "heap \<Rightarrow> graph \<Rightarrow> error + graph list \<times> graph" where
  "TrySeparateToMultipleSingleDeviceGraphs h g =
     (if ContainMultiDeviceOp (OriginProgram g) 1 then Inr ([], g)
      else if FilterByNodeWrapper (Nodes g) = [] then Inr ([], g)
      else
        (case classify_loop h (FilterByNodeWrapper (Nodes g)) 0 Map.empty of
           None \<Rightarrow> Inr ([], g)
         | Some (place_num, op_to_dev_idx) \<Rightarrow>
             (case dependency_loop h op_to_dev_idx (FilterByNodeWrapper (Nodes g)) of
                Inl e \<Rightarrow> Inl e
              | Inr independent \<Rightarrow>
                  (if \<not> independent then Inr ([], g)
                   else if \<not> 1 \<le> place_num then Inl NoPlaceFound
                   else if place_num = 1 then Inr ([], g)
                   else construct_and_transfer h g (FilterByNodeWrapper (Nodes g))
                          place_num op_to_dev_idx))))"

section \<open>Scan for the read op\<close>






section \<open>Notions used in the statements\<close>

text \<open>The device index the separation assigns to an op handle of the heap.\<close>

definition dev_of :: "heap \<Rightarrow> op_id \<Rightarrow> size_t" where
  "dev_of h op = GetUniqueDeviceIdOfOp h (op_at h op)"

text \<open>The classification map \<open>op_to_dev_idx\<close> of a graph, when every op handle is determined.\<close>

definition classification :: "heap \<Rightarrow> graph \<Rightarrow> (op_id \<rightharpoonup> size_t) option" where
  "classification h g =
     map_option snd (classify_loop h (FilterByNodeWrapper (Nodes g)) 0 Map.empty)"

text \<open>
  What the second loop decides, for the map built by the first: every generating op of an
  input and every pending op of an output is classified, with the device of the op.
\<close>

definition independent :: "heap \<Rightarrow> op_id list \<Rightarrow> bool" where
  "independent h ops \<longleftrightarrow>
     (\<forall>op\<in>set ops.
        (\<forall>v\<in>set (Inputs (op_at h op)). \<forall>gen. GeneratedOp (var_at h v) = Some gen \<longrightarrow>
           gen \<in> set ops \<and> dev_of h gen = dev_of h op) \<and>
        (\<forall>v\<in>set (Outputs (op_at h op)). \<forall>p\<in>set (PendingOps (var_at h v)).
           p \<in> set ops \<and> dev_of h p = dev_of h op))"

text \<open>
  The cross-device dependency condition in the words of the specification: for an op with
  device index \<open>d\<close>, a generating op of an input, and a pending op of an output, that is
  present in the classification map has device index \<open>d\<close>.
\<close>

definition same_device_if_present :: "(op_id \<rightharpoonup> size_t) \<Rightarrow> size_t \<Rightarrow> op_id \<Rightarrow> bool" where
  "same_device_if_present m d other = (case m other of None \<Rightarrow> True | Some d' \<Rightarrow> d' = d)"

definition cross_device_free :: "heap \<Rightarrow> (op_id \<rightharpoonup> size_t) \<Rightarrow> op_id list \<Rightarrow> bool" where
  "cross_device_free h m ops \<longleftrightarrow>
     (\<forall>op\<in>set ops.
        (case m op of
           None \<Rightarrow> True
         | Some d \<Rightarrow>
             (\<forall>v\<in>set (Inputs (op_at h op)).
                (case GeneratedOp (var_at h v) of
                   None \<Rightarrow> True
                 | Some gen \<Rightarrow> same_device_if_present m d gen)) \<and>
             (\<forall>v\<in>set (Outputs (op_at h op)).
                \<forall>p\<in>set (PendingOps (var_at h v)). same_device_if_present m d p)))"

text \<open>The nodes the transfer loop touches for one op: its own node and its variables' nodes.\<close>

definition incident_nodes :: "heap \<Rightarrow> op_id \<Rightarrow> node set" where
  "incident_nodes h op =
     insert (OpNode op) (VarNode ` set (Inputs (op_at h op) @ Outputs (op_at h op)))"

definition all_nodes :: "graph list \<Rightarrow> node set" where
  "all_nodes gs = (\<Union>G\<in>set gs. set (Nodes G))"

text \<open>No node in two of the graphs \<open>gs\<close>, and none both in one of them and in \<open>g\<close>.\<close>

definition disjoint_graphs :: "graph list \<Rightarrow> graph \<Rightarrow> bool" where
  "disjoint_graphs gs g \<longleftrightarrow>
     (\<forall>i<length gs. \<forall>j<length gs. i \<noteq> j \<longrightarrow> set (Nodes (gs ! i)) \<inter> set (Nodes (gs ! j)) = {}) \<and>
     (\<forall>i<length gs. set (Nodes (gs ! i)) \<inter> set (Nodes g) = {})"

text \<open>The two side-tables of a destination graph as construction leaves them.\<close>

definition fresh_attrs :: "string \<rightharpoonup> graph_attr" where
  "fresh_attrs = [kGraphVars \<mapsto> GraphVarsAttr [Map.empty], kGraphDepVars \<mapsto> GraphDepVarsAttr {}]"



section \<open>Example heap and graphs\<close>

text \<open>Op handles 0 to 9 and 11, and variables 10 to 16, of one heap; graphs over it.\<close>

definition ex_compute :: "string \<Rightarrow> size_t \<Rightarrow> var_id list \<Rightarrow> var_id list \<Rightarrow> OpHandleBase" where
  "ex_compute t d ins outs =
     \<lparr>kind = ComputationOpHandle \<lparr>Type = t, Attrs = Map.empty\<rparr> d,
      Inputs = ins, Outputs = outs\<rparr>"

definition ex_var :: "string \<Rightarrow> size_t \<Rightarrow> op_id option \<Rightarrow> op_id list \<Rightarrow> VarHandleBase" where
  "ex_var n d gen pending = \<lparr>vkind = VarHandle d, Name = n, GeneratedOp = gen, PendingOps = pending\<rparr>"

definition ex_heap :: heap where
  "ex_heap =
     \<lparr>op_at = (\<lambda>i.
        if i = 0 then ex_compute ''relu'' 0 [10] [11]
        else if i = 1 then ex_compute ''relu'' 1 [12] [13]
        else if i = 2 then ex_compute ''relu'' 2 [14] []
        else if i = 3 then ex_compute ''allreduce'' 0 [] []
        else if i = 4 then \<lparr>kind = EagerDeletionOpHandle 1, Inputs = [], Outputs = []\<rparr>
        else if i = 5 then \<lparr>kind = ShareTensorBufferOpHandle 1, Inputs = [], Outputs = []\<rparr>
        else if i = 6 then ex_compute ''relu'' 2 [15] []
        else if i = 7 then
          \<lparr>kind = ComputationOpHandle
             \<lparr>Type = ''read'', Attrs = [''drop_last'' \<mapsto> BoolAttr True]\<rparr> 0,
           Inputs = [], Outputs = []\<rparr>
        else if i = 8 then ex_compute ''relu'' 0 [] [16]
        else if i = 9 then ex_compute ''relu'' 1 [16] []
        else if i = 11 then ex_compute ''read'' 0 [] []
        else \<lparr>kind = OtherOpHandle, Inputs = [], Outputs = []\<rparr>),
      var_at = (\<lambda>i.
        if i = 10 then ex_var ''x0'' 0 None [0]
        else if i = 11 then ex_var ''y0'' 0 (Some 0) []
        else if i = 12 then ex_var ''x1'' 1 None [1]
        else if i = 13 then ex_var ''y1'' 1 (Some 1) []
        else if i = 14 then ex_var ''x2'' 2 None [2]
        else if i = 15 then ex_var ''z'' 5 None [6]
        else if i = 16 then
          \<lparr>vkind = DummyVarHandle, Name = ''dummy'', GeneratedOp = Some 8, PendingOps = [9]\<rparr>
        else ex_var ''unused'' 0 None [])\<rparr>"

definition ex_graph :: graph where
  "ex_graph =
     \<lparr>OriginProgram = [[''relu'', ''relu'']],
      Nodes = [OpNode 0, OpNode 1, VarNode 10, VarNode 11, VarNode 12, VarNode 13,
               VarNode 30, PlainNode 0],
      attrs = [kGraphVars \<mapsto> GraphVarsAttr [[''x0'' \<mapsto> [10], ''y0'' \<mapsto> [11]],
                                              [''x1'' \<mapsto> [12], ''y1'' \<mapsto> [13]]],
               kGraphDepVars \<mapsto> GraphDepVarsAttr {}]\<rparr>"

definition ex_graph_parts :: "graph list" where
  "ex_graph_parts =
     [\<lparr>OriginProgram = [[]], Nodes = [OpNode 0, VarNode 10, VarNode 11],
       attrs = [kGraphDepVars \<mapsto> GraphDepVarsAttr {},
                kGraphVars \<mapsto> GraphVarsAttr [[''x0'' \<mapsto> [10], ''y0'' \<mapsto> [11]]]]\<rparr>,
      \<lparr>OriginProgram = [[]], Nodes = [OpNode 1, VarNode 12, VarNode 13],
       attrs = [kGraphDepVars \<mapsto> GraphDepVarsAttr {},
                kGraphVars \<mapsto> GraphVarsAttr [[''x1'' \<mapsto> [12], ''y1'' \<mapsto> [13]]]]\<rparr>]"

definition ex_graph_rest :: graph where
  "ex_graph_rest =
     \<lparr>OriginProgram = [[''relu'', ''relu'']], Nodes = [VarNode 30, PlainNode 0],
      attrs = Map.empty\<rparr>"

definition ex_graph_gap :: graph where
  "ex_graph_gap =
     \<lparr>OriginProgram = [[''relu'', ''relu'']],
      Nodes = [OpNode 0, OpNode 2, VarNode 10, VarNode 11, VarNode 14],
      attrs = [kGraphVars \<mapsto> GraphVarsAttr [[''x0'' \<mapsto> [10], ''y0'' \<mapsto> [11]],
                                              Map.empty,
                                              [''x2'' \<mapsto> [14]]],
               kGraphDepVars \<mapsto> GraphDepVarsAttr {},
               kProgramDescs \<mapsto> ProgramDescsAttr [[[''relu'']]]]\<rparr>"

definition ex_graph_gap_parts :: "graph list" where
  "ex_graph_gap_parts =
     [\<lparr>OriginProgram = [[]], Nodes = [OpNode 0, VarNode 10, VarNode 11],
       attrs = [kGraphDepVars \<mapsto> GraphDepVarsAttr {},
                kGraphVars \<mapsto> GraphVarsAttr [[''x0'' \<mapsto> [10], ''y0'' \<mapsto> [11]]],
                kProgramDescs \<mapsto> ProgramDescsAttr [[[''relu'']]]]\<rparr>,
      \<lparr>OriginProgram = [[]], Nodes = [],
       attrs = [kGraphVars \<mapsto> GraphVarsAttr [Map.empty],
                kGraphDepVars \<mapsto> GraphDepVarsAttr {},
                kProgramDescs \<mapsto> ProgramDescsAttr [[[''relu'']]]]\<rparr>,
      \<lparr>OriginProgram = [[]], Nodes = [OpNode 2, VarNode 14],
       attrs = [kGraphDepVars \<mapsto> GraphDepVarsAttr {},
                kGraphVars \<mapsto> GraphVarsAttr [[''x2'' \<mapsto> [14]]],
                kProgramDescs \<mapsto> ProgramDescsAttr [[[''relu'']]]]\<rparr>]"

definition ex_graph_gap_rest :: graph where
  "ex_graph_gap_rest =
     \<lparr>OriginProgram = [[''relu'', ''relu'']], Nodes = [],
      attrs = [kProgramDescs \<mapsto> ProgramDescsAttr [[[''relu'']]]]\<rparr>"

text \<open>Two op handles on two devices joined by a dummy variable.\<close>

definition ex_graph_cross :: graph where
  "ex_graph_cross =
     \<lparr>OriginProgram = [[''relu'', ''relu'']],
      Nodes = [OpNode 8, OpNode 9, VarNode 16],
      attrs = [kGraphVars \<mapsto> GraphVarsAttr [Map.empty, Map.empty],
               kGraphDepVars \<mapsto> GraphDepVarsAttr {16}]\<rparr>"

definition ex_cross_map :: "op_id \<rightharpoonup> size_t" where
  "ex_cross_map = [8 \<mapsto> 0, 9 \<mapsto> 1]"

text \<open>An op handle with scope index 2 whose one input variable has scope index 5.\<close>

definition ex_graph_mismatch :: graph where
  "ex_graph_mismatch =
     \<lparr>OriginProgram = [[''relu'']],
      Nodes = [OpNode 6, VarNode 15],
      attrs = [kGraphVars \<mapsto> GraphVarsAttr [Map.empty, Map.empty, [''z'' \<mapsto> [15]]],
               kGraphDepVars \<mapsto> GraphDepVarsAttr {}]\<rparr>"

text \<open>A program with a communication op in block 1.\<close>

definition ex_graph_veto :: graph where
  "ex_graph_veto = ex_graph\<lparr>OriginProgram := [[''relu'', ''relu''], [''c_allreduce_sum'']]\<rparr>"

text \<open>A graph without op nodes, and one whose only op handle is on device 0.\<close>

definition ex_graph_no_ops :: graph where
  "ex_graph_no_ops =
     \<lparr>OriginProgram = [[]], Nodes = [VarNode 10, PlainNode 0],
      attrs = [kGraphVars \<mapsto> GraphVarsAttr [[''x0'' \<mapsto> [10]]],
               kGraphDepVars \<mapsto> GraphDepVarsAttr {}]\<rparr>"

definition ex_graph_single :: graph where
  "ex_graph_single =
     \<lparr>OriginProgram = [[''relu'']], Nodes = [OpNode 0, VarNode 10, VarNode 11],
      attrs = [kGraphVars \<mapsto> GraphVarsAttr [[''x0'' \<mapsto> [10], ''y0'' \<mapsto> [11]]],
               kGraphDepVars \<mapsto> GraphDepVarsAttr {}]\<rparr>"



section \<open>Facts about the loops\<close>

lemma set_FilterByNodeWrapper: "set (FilterByNodeWrapper ns) = {op. OpNode op \<in> set ns}"
  by (induction ns rule: FilterByNodeWrapper.induct) auto

lemma block_has_multi_device_op_iff:
  "block_has_multi_device_op b \<longleftrightarrow> (\<exists>t\<in>set b. t \<in> kMultiDeviceOps)"
  by (induction b) auto

lemma blocks_have_multi_device_op_iff:
  "blocks_have_multi_device_op bs \<longleftrightarrow> (\<exists>b\<in>set bs. \<exists>t\<in>set b. t \<in> kMultiDeviceOps)"
  by (induction bs) (auto simp: block_has_multi_device_op_iff)

lemma ContainMultiDeviceOp_iff:
  "ContainMultiDeviceOp p n \<longleftrightarrow>
     (\<exists>i. n \<le> i \<and> i < length p \<and> (\<exists>t\<in>set (p ! i). t \<in> kMultiDeviceOps))"
proof
  assume "ContainMultiDeviceOp p n"
  then obtain b t where b: "b \<in> set (drop n p)" and t: "t \<in> set b" "t \<in> kMultiDeviceOps"
    by (auto simp: ContainMultiDeviceOp_def blocks_have_multi_device_op_iff)
  from b obtain j where "j < length (drop n p)" "b = drop n p ! j"
    by (auto simp: in_set_conv_nth)
  then have "n \<le> n + j \<and> n + j < length p \<and> b = p ! (n + j)" by auto
  with t show "\<exists>i. n \<le> i \<and> i < length p \<and> (\<exists>t\<in>set (p ! i). t \<in> kMultiDeviceOps)" by blast
next
  assume "\<exists>i. n \<le> i \<and> i < length p \<and> (\<exists>t\<in>set (p ! i). t \<in> kMultiDeviceOps)"
  then obtain i t where i: "n \<le> i" "i < length p" and t: "t \<in> set (p ! i)" "t \<in> kMultiDeviceOps"
    by blast
  from i have "i - n < length (drop n p)" "drop n p ! (i - n) = p ! i" by auto
  then have "p ! i \<in> set (drop n p)" by (metis nth_mem)
  with t show "ContainMultiDeviceOp p n"
    by (auto simp: ContainMultiDeviceOp_def blocks_have_multi_device_op_iff)
qed

lemma in_outs_loop_eq:
  "in_outs_loop h d vs =
     (if \<forall>v\<in>set vs. \<forall>s. vkind (var_at h v) = VarHandle s \<longrightarrow> s = d then d
      else kUndefinedDevIdx)"
  by (induction vs) (auto split: var_kind.splits)

lemma classify_loop_None_iff:
  "classify_loop h ops pn m = None \<longleftrightarrow> (\<exists>op\<in>set ops. dev_of h op = kUndefinedDevIdx)"
  by (induction ops arbitrary: pn m) (auto simp: Let_def dev_of_def)

lemma classify_loop_map:
  "classify_loop h ops pn m = Some (pn', m') \<Longrightarrow>
     m' = (\<lambda>op. if op \<in> set ops then Some (dev_of h op) else m op)"
proof (induction ops arbitrary: pn m)
  case Nil
  then show ?case by simp
next
  case (Cons op ops)
  from Cons.prems have "classify_loop h ops (max pn (dev_of h op + 1)) (m(op \<mapsto> dev_of h op)) = Some (pn', m')"
    by (simp add: Let_def dev_of_def split: if_splits)
  from Cons.IH [OF this] show ?case by (auto simp: fun_eq_iff)
qed

lemma classify_loop_place_num_ge:
  "classify_loop h ops pn m = Some (pn', m') \<Longrightarrow>
     pn \<le> pn' \<and> (\<forall>op\<in>set ops. dev_of h op + 1 \<le> pn')"
proof (induction ops arbitrary: pn m)
  case Nil
  then show ?case by simp
next
  case (Cons op ops)
  from Cons.prems have "classify_loop h ops (max pn (dev_of h op + 1)) (m(op \<mapsto> dev_of h op)) = Some (pn', m')"
    by (simp add: Let_def dev_of_def split: if_splits)
  from Cons.IH [OF this] show ?case by auto
qed

lemma classify_loop_place_num_attained:
  "classify_loop h ops pn m = Some (pn', m') \<Longrightarrow>
     pn' = pn \<or> (\<exists>op\<in>set ops. pn' = dev_of h op + 1)"
proof (induction ops arbitrary: pn m)
  case Nil
  then show ?case by simp
next
  case (Cons op ops)
  from Cons.prems have "classify_loop h ops (max pn (dev_of h op + 1)) (m(op \<mapsto> dev_of h op)) = Some (pn', m')"
    by (simp add: Let_def dev_of_def split: if_splits)
  from Cons.IH [OF this] show ?case by (auto simp: max_def split: if_splits)
qed

lemma succ_ge_1: "d \<noteq> kUndefinedDevIdx \<Longrightarrow> 1 \<le> d + 1"
  unfolding kUndefinedDevIdx_def
  by (meson inc_less_eq_triv_imp nle_le olen_add_eqv)

lemma unat_succ: "d \<noteq> kUndefinedDevIdx \<Longrightarrow> unat (d + 1) = Suc (unat d)"
  unfolding kUndefinedDevIdx_def
  by (simp add: add.commute add_eq_0_iff unatSuc)

lemma succ_le_succ:
  "d \<noteq> kUndefinedDevIdx \<Longrightarrow> e \<noteq> kUndefinedDevIdx \<Longrightarrow> d + 1 \<le> e + 1 \<longleftrightarrow> d \<le> e"
  by (simp add: word_le_nat_alt unat_succ)

lemma inputs_same_device_iff:
  "inputs_same_device h m d vs \<longleftrightarrow>
     (\<forall>v\<in>set vs. \<forall>gen. GeneratedOp (var_at h v) = Some gen \<longrightarrow> m gen = Some d)"
  by (induction vs) (auto split: option.splits)

lemma pending_same_device_iff:
  "pending_same_device m d ps \<longleftrightarrow> (\<forall>p\<in>set ps. m p = Some d)"
  by (induction ps) (auto split: option.splits)

lemma outputs_same_device_iff:
  "outputs_same_device h m d vs \<longleftrightarrow>
     (\<forall>v\<in>set vs. \<forall>p\<in>set (PendingOps (var_at h v)). m p = Some d)"
  by (induction vs) (auto simp: pending_same_device_iff)

lemma dependency_loop_eq:
  "\<forall>op\<in>set ops. m op \<noteq> None \<Longrightarrow>
   dependency_loop h m ops =
     Inr (\<forall>op\<in>set ops.
            inputs_same_device h m (the (m op)) (Inputs (op_at h op)) \<and>
            outputs_same_device h m (the (m op)) (Outputs (op_at h op)))"
  by (induction ops) (auto split: option.splits)

lemma classify_loop_lookup:
  "classify_loop h ops pn Map.empty = Some (pn', m) \<Longrightarrow>
     m op = (if op \<in> set ops then Some (dev_of h op) else None)"
  by (drule classify_loop_map) simp

lemma classify_loop_Some:
  "\<forall>op\<in>set ops. dev_of h op \<noteq> kUndefinedDevIdx \<Longrightarrow> \<exists>pn' m'. classify_loop h ops pn m = Some (pn', m')"
  using classify_loop_None_iff [of h ops pn m] by (cases "classify_loop h ops pn m") auto

lemma classify_loop_determined:
  "classify_loop h ops pn m = Some (pn', m') \<Longrightarrow> op \<in> set ops \<Longrightarrow> dev_of h op \<noteq> kUndefinedDevIdx"
  using classify_loop_None_iff [of h ops pn m] by auto

lemma classify_loop_place_num_pos:
  assumes "classify_loop h ops pn m = Some (pn', m')" and "ops \<noteq> []"
  shows "1 \<le> pn'"
proof -
  from assms(2) obtain op where op: "op \<in> set ops" by (cases ops) auto
  with assms(1) have "dev_of h op \<noteq> kUndefinedDevIdx" by (rule classify_loop_determined)
  then have "1 \<le> dev_of h op + 1" by (rule succ_ge_1)
  moreover from classify_loop_place_num_ge [OF assms(1)] op have "dev_of h op + 1 \<le> pn'" by blast
  ultimately show ?thesis by simp
qed

lemma dependency_loop_total:
  "\<forall>op\<in>set ops. m op \<noteq> None \<Longrightarrow> \<exists>b. dependency_loop h m ops = Inr b"
  by (simp add: dependency_loop_eq)

lemma dependency_loop_classified:
  assumes "classify_loop h ops pn Map.empty = Some (pn', m)"
  shows "dependency_loop h m ops = Inr (independent h ops)"
proof -
  have m: "\<And>op. m op = (if op \<in> set ops then Some (dev_of h op) else None)"
    using assms by (rule classify_loop_lookup)
  have "\<forall>op\<in>set ops. m op \<noteq> None" by (simp add: m)
  then have "dependency_loop h m ops =
     Inr (\<forall>op\<in>set ops.
            inputs_same_device h m (the (m op)) (Inputs (op_at h op)) \<and>
            outputs_same_device h m (the (m op)) (Outputs (op_at h op)))"
    by (rule dependency_loop_eq)
  also have "(\<forall>op\<in>set ops.
            inputs_same_device h m (the (m op)) (Inputs (op_at h op)) \<and>
            outputs_same_device h m (the (m op)) (Outputs (op_at h op))) = independent h ops"
    unfolding independent_def inputs_same_device_iff outputs_same_device_iff
    by (auto simp: m split: if_splits)
  finally show ?thesis .
qed

text \<open>The function, with the two loops before construction replaced by what they compute.\<close>

lemma TrySeparate_eq:
  "TrySeparateToMultipleSingleDeviceGraphs h g =
     (let ops = FilterByNodeWrapper (Nodes g) in
      if ContainMultiDeviceOp (OriginProgram g) 1 \<or> ops = [] then Inr ([], g)
      else
        (case classify_loop h ops 0 Map.empty of
           None \<Rightarrow> Inr ([], g)
         | Some (place_num, m) \<Rightarrow>
             if \<not> independent h ops \<or> place_num = 1 then Inr ([], g)
             else construct_and_transfer h g ops place_num m))"
proof -
  have "1 \<le> pn" if "classify_loop h (FilterByNodeWrapper (Nodes g)) 0 Map.empty = Some (pn, m)"
    and "FilterByNodeWrapper (Nodes g) \<noteq> []" for pn m
    using that by (rule classify_loop_place_num_pos)
  then show ?thesis
    unfolding TrySeparateToMultipleSingleDeviceGraphs_def Let_def
    by (auto simp: dependency_loop_classified split: option.splits)
qed

lemma move_node_Inr:
  "move_node n st = Inr st' \<Longrightarrow>
     n \<in> set (Nodes (fst st)) \<and> n \<notin> set (Nodes (snd st)) \<and>
     fst st' = (fst st)\<lparr>Nodes := removeAll n (Nodes (fst st))\<rparr> \<and>
     snd st' = (snd st)\<lparr>Nodes := Nodes (snd st) @ [n]\<rparr>"
  by (auto simp: move_node_def RemoveNode_def AddNode_def split: if_splits sum.splits)

lemma Nodes_ret_vars_emplace [simp]: "Nodes (ret_vars_emplace r n hs) = Nodes r"
  by (simp add: ret_vars_emplace_def split: option.splits graph_attr.splits list.splits)

lemma Nodes_ret_dummy_vars_emplace [simp]: "Nodes (ret_dummy_vars_emplace r v) = Nodes r"
  by (simp add: ret_dummy_vars_emplace_def split: option.splits graph_attr.splits)

lemma handler_Inr:
  "handler h ov vs st = Inr st' \<Longrightarrow>
     set (Nodes (fst st')) = set (Nodes (fst st)) - VarNode ` set vs \<and>
     set (Nodes (snd st')) = set (Nodes (snd st)) \<union> (VarNode ` set vs \<inter> set (Nodes (fst st))) \<and>
     attrs (fst st') = attrs (fst st) \<and> OriginProgram (fst st') = OriginProgram (fst st)"
proof (induction vs arbitrary: st)
  case Nil
  then show ?case by simp
next
  case (Cons v vs)
  show ?case
  proof (cases "VarNode v \<in> set (Nodes (fst st))")
    case False
    with Cons.prems have "handler h ov vs st = Inr st'" by simp
    from Cons.IH [OF this] False show ?thesis by auto
  next
    case True
    with Cons.prems obtain st1 where mv: "move_node (VarNode v) st = Inr st1"
      by (auto split: sum.splits)
    from Cons.prems True mv
    have "\<exists>r2. Nodes r2 = Nodes (snd st1) \<and> handler h ov vs (fst st1, r2) = Inr st'"
      by (cases st1)
        (auto split: var_kind.splits option.splits
              intro: exI [of _ "ret_vars_emplace b n hs" for b n hs]
                     exI [of _ "ret_dummy_vars_emplace b v" for b v])
    then obtain r2 where
      r2: "Nodes r2 = Nodes (snd st1)" and rest: "handler h ov vs (fst st1, r2) = Inr st'"
      by blast
    from move_node_Inr [OF mv] Cons.IH [OF rest] r2 show ?thesis by auto
  qed
qed

lemma transfer_op_Inr:
  assumes "transfer_op h op d st = Inr st'"
  shows "OpNode op \<in> set (Nodes (fst st)) \<and>
     set (Nodes (fst st')) = set (Nodes (fst st)) - incident_nodes h op \<and>
     set (Nodes (snd st')) = set (Nodes (snd st)) \<union> (incident_nodes h op \<inter> set (Nodes (fst st))) \<and>
     attrs (fst st') = attrs (fst st) \<and> OriginProgram (fst st') = OriginProgram (fst st)"
proof -
  from assms obtain ov st1 st2 where
    mv: "move_node (OpNode op) st = Inr st1" and
    h1: "handler h ov (Inputs (op_at h op)) st1 = Inr st2" and
    h2: "handler h ov (Outputs (op_at h op)) st2 = Inr st'"
    by (auto simp: transfer_op_def split: sum.splits)
  from move_node_Inr [OF mv] handler_Inr [OF h1] handler_Inr [OF h2]
  show ?thesis unfolding incident_nodes_def by auto
qed

lemma all_nodes_update:
  "i < length gs \<Longrightarrow> set (Nodes r) = set (Nodes (gs ! i)) \<union> X \<Longrightarrow>
     all_nodes (gs[i := r]) = all_nodes gs \<union> X"
proof (induction gs arbitrary: i)
  case Nil
  then show ?case by simp
next
  case (Cons a gs)
  then show ?case
    by (cases i) (auto simp: all_nodes_def)
qed

lemma all_nodes_nth: "all_nodes gs = (\<Union>i<length gs. set (Nodes (gs ! i)))"
proof -
  have "set gs = (\<lambda>i. gs ! i) ` {..<length gs}"
    by (auto simp: in_set_conv_nth)
  then show ?thesis unfolding all_nodes_def by simp
qed

lemma disjoint_graphs_step:
  assumes inv: "disjoint_graphs gs g" and i: "i < length gs"
    and r: "set (Nodes r) = set (Nodes (gs ! i)) \<union> (X \<inter> set (Nodes g))"
    and g': "set (Nodes g') = set (Nodes g) - X"
  shows "disjoint_graphs (gs[i := r]) g'"
  unfolding disjoint_graphs_def
proof (intro conjI allI impI)
  fix a b
  assume "a < length (gs[i := r])" "b < length (gs[i := r])" "a \<noteq> b"
  with inv i r show "set (Nodes (gs[i := r] ! a)) \<inter> set (Nodes (gs[i := r] ! b)) = {}"
    unfolding disjoint_graphs_def
    by (cases "a = i"; cases "b = i") (simp_all add: Int_Un_distrib Int_Un_distrib2, blast+)
next
  fix a
  assume "a < length (gs[i := r])"
  with inv i r g' show "set (Nodes (gs[i := r] ! a)) \<inter> set (Nodes g') = {}"
    unfolding disjoint_graphs_def
    by (cases "a = i") (simp_all, blast+)
qed

lemma transfer_loop_Inr:
  "transfer_loop h m ops st = Inr st' \<Longrightarrow>
     length (fst st') = length (fst st) \<and>
     set (Nodes (snd st')) = set (Nodes (snd st)) - (\<Union>op\<in>set ops. incident_nodes h op) \<and>
     all_nodes (fst st') =
       all_nodes (fst st) \<union> ((\<Union>op\<in>set ops. incident_nodes h op) \<inter> set (Nodes (snd st))) \<and>
     (disjoint_graphs (fst st) (snd st) \<longrightarrow> disjoint_graphs (fst st') (snd st')) \<and>
     attrs (snd st') = attrs (snd st) \<and> OriginProgram (snd st') = OriginProgram (snd st) \<and>
     OpNode ` set ops \<subseteq> set (Nodes (snd st))"
proof (induction ops arbitrary: st)
  case Nil
  then show ?case by simp
next
  case (Cons op ops)
  from Cons.prems obtain d where d: "m op = Some d" and lt: "unat d < length (fst st)"
    by (auto split: option.splits if_splits)
  from Cons.prems d lt obtain st1 where
    op: "transfer_op h op d (snd st, fst st ! unat d) = Inr st1" and
    rest: "transfer_loop h m ops ((fst st)[unat d := snd st1], fst st1) = Inr st'"
    by (auto split: sum.splits)
  note A = transfer_op_Inr [OF op, simplified]
  note B = Cons.IH [OF rest, simplified]
  from A lt have un: "all_nodes ((fst st)[unat d := snd st1]) =
      all_nodes (fst st) \<union> (incident_nodes h op \<inter> set (Nodes (snd st)))"
    by (intro all_nodes_update) auto
  have dj: "disjoint_graphs ((fst st)[unat d := snd st1]) (fst st1)"
    if "disjoint_graphs (fst st) (snd st)"
    using that lt A by (intro disjoint_graphs_step [where g = "snd st"]) auto
  show ?case
  proof (intro conjI)
    show "length (fst st') = length (fst st)" using B by simp
    show "set (Nodes (snd st')) = set (Nodes (snd st)) - (\<Union>op\<in>set (op # ops). incident_nodes h op)"
      using A B by auto
    show "all_nodes (fst st') = all_nodes (fst st) \<union>
        ((\<Union>op\<in>set (op # ops). incident_nodes h op) \<inter> set (Nodes (snd st)))"
      using A B un by auto
    show "disjoint_graphs (fst st) (snd st) \<longrightarrow> disjoint_graphs (fst st') (snd st')"
      using B dj by blast
    show "attrs (snd st') = attrs (snd st)" using A B by simp
    show "OriginProgram (snd st') = OriginProgram (snd st)" using A B by simp
    show "OpNode ` set (op # ops) \<subseteq> set (Nodes (snd st))" using A B by auto
  qed
qed

lemma transfer_loop_untouched:
  "transfer_loop h m ops st = Inr st' \<Longrightarrow> \<forall>op\<in>set ops. \<forall>d. m op = Some d \<longrightarrow> unat d \<noteq> i \<Longrightarrow>
     fst st' ! i = fst st ! i"
proof (induction ops arbitrary: st)
  case Nil
  then show ?case by simp
next
  case (Cons op ops)
  from Cons.prems(1) obtain d where d: "m op = Some d" and lt: "unat d < length (fst st)"
    by (auto split: option.splits if_splits)
  from Cons.prems(1) d lt obtain st1 where
    rest: "transfer_loop h m ops ((fst st)[unat d := snd st1], fst st1) = Inr st'"
    by (auto split: sum.splits)
  from Cons.prems(2) d have "unat d \<noteq> i" by simp
  moreover from Cons.IH [OF rest] Cons.prems(2)
  have "fst st' ! i = (fst st)[unat d := snd st1] ! i" by simp
  ultimately show ?case by simp
qed

lemma fresh_graph_eq:
  "fresh_graph = Inr \<lparr>OriginProgram = [[]], Nodes = [], attrs = fresh_attrs\<rparr>"
  by (simp add: fresh_graph_def Set_attr_def Has_def new_Graph_def kGraphVars_def
      kGraphDepVars_def fresh_attrs_def)

lemma CopyGraphAttrIfExists_ProgramDescs_Inr:
  "CopyGraphAttrIfExists_ProgramDescs g dst k = Inr dst' \<Longrightarrow>
     Nodes dst' = Nodes dst \<and> OriginProgram dst' = OriginProgram dst \<and>
     attrs dst' = attrs dst ++ (attrs g |` {k})"
  by (auto simp: CopyGraphAttrIfExists_ProgramDescs_def Set_attr_def Has_def fun_eq_iff
      map_add_def restrict_map_def split: if_splits option.splits graph_attr.splits)

lemma CopyGraphAttrIfExists_FusedVars_Inr:
  "CopyGraphAttrIfExists_FusedVars g dst k = Inr dst' \<Longrightarrow>
     Nodes dst' = Nodes dst \<and> OriginProgram dst' = OriginProgram dst \<and>
     attrs dst' = attrs dst ++ (attrs g |` {k})"
  by (auto simp: CopyGraphAttrIfExists_FusedVars_def Set_attr_def Has_def fun_eq_iff
      map_add_def restrict_map_def split: if_splits option.splits graph_attr.splits)

lemma copy_attrs_loop_Inr:
  "copy_attrs_loop g gs = Inr gs' \<Longrightarrow>
     length gs' = length gs \<and>
     (\<forall>i<length gs. Nodes (gs' ! i) = Nodes (gs ! i) \<and>
        OriginProgram (gs' ! i) = OriginProgram (gs ! i) \<and>
        attrs (gs' ! i) = attrs (gs ! i) ++ (attrs g |` {kProgramDescs, kFusedVars}))"
proof (induction gs arbitrary: gs')
  case Nil
  then show ?case by simp
next
  case (Cons dst gs)
  from Cons.prems obtain dst1 dst2 rest where
    c1: "CopyGraphAttrIfExists_ProgramDescs g dst kProgramDescs = Inr dst1" and
    c2: "CopyGraphAttrIfExists_FusedVars g dst1 kFusedVars = Inr dst2" and
    r: "copy_attrs_loop g gs = Inr rest" and gs': "gs' = dst2 # rest"
    by (auto split: sum.splits)
  note A = CopyGraphAttrIfExists_ProgramDescs_Inr [OF c1]
  note B = CopyGraphAttrIfExists_FusedVars_Inr [OF c2]
  have "attrs dst2 = attrs dst ++ (attrs g |` {kProgramDescs, kFusedVars})"
    using A B by (auto simp: fun_eq_iff map_add_def restrict_map_def split: option.splits)
  with A B Cons.IH [OF r] gs' show ?case
    by (auto simp: nth_Cons split: nat.splits)
qed

lemma all_nodes_copy:
  assumes "length gs' = length gs" "\<forall>i<length gs. Nodes (gs' ! i) = Nodes (gs ! i)"
  shows "all_nodes gs' = all_nodes gs"
  using assms by (simp add: all_nodes_nth)

lemma all_nodes_replicate: "all_nodes (replicate n \<lparr>OriginProgram = p, Nodes = [], attrs = a\<rparr>) = {}"
  by (auto simp: all_nodes_def)

lemma construct_and_transfer_Inr:
  assumes "construct_and_transfer h g ops pn m = Inr (gs, g')"
  shows "length gs = unat pn"
    and "all_nodes gs = (\<Union>op\<in>set ops. incident_nodes h op) \<inter> set (Nodes g)"
    and "set (Nodes g') = set (Nodes g) - (\<Union>op\<in>set ops. incident_nodes h op)"
    and "disjoint_graphs gs g'"
    and "attrs g' = (attrs g)(kGraphVars := None, kGraphDepVars := None)"
    and "OriginProgram g' = OriginProgram g"
    and "\<And>i. i < unat pn \<Longrightarrow> \<forall>op\<in>set ops. \<forall>d. m op = Some d \<longrightarrow> unat d \<noteq> i \<Longrightarrow>
           Nodes (gs ! i) = [] \<and>
           attrs (gs ! i) = fresh_attrs ++ (attrs g |` {kProgramDescs, kFusedVars})"
proof -
  let ?fresh = "\<lparr>OriginProgram = [[]], Nodes = [], attrs = fresh_attrs\<rparr>"
  from assms obtain gs1 g1 g2 where
    tr: "transfer_loop h m ops (replicate (unat pn) ?fresh, g) = Inr (gs1, g1)" and
    e1: "Erase g1 kGraphVars = Inr g2" and
    e2: "Erase g2 kGraphDepVars = Inr g'" and
    cp: "copy_attrs_loop g' gs1 = Inr gs"
    by (auto simp: construct_and_transfer_def fresh_graph_eq split: sum.splits)
  note T = transfer_loop_Inr [OF tr, simplified]
  note C = copy_attrs_loop_Inr [OF cp]
  from e1 e2 have g': "g' = g1\<lparr>attrs := (attrs g1)(kGraphVars := None, kGraphDepVars := None)\<rparr>"
    by (auto simp: Erase_def split: if_splits)
  have dj0: "disjoint_graphs (replicate (unat pn) ?fresh) g"
    by (simp add: disjoint_graphs_def)
  show "length gs = unat pn" using T C by simp
  show "all_nodes gs = (\<Union>op\<in>set ops. incident_nodes h op) \<inter> set (Nodes g)"
    using T C all_nodes_copy [of gs gs1] by (simp add: all_nodes_replicate)
  show "set (Nodes g') = set (Nodes g) - (\<Union>op\<in>set ops. incident_nodes h op)"
    using T g' by simp
  from T dj0 have "disjoint_graphs gs1 g1" by blast
  with C T show "disjoint_graphs gs g'"
    by (simp add: disjoint_graphs_def g')
  show "attrs g' = (attrs g)(kGraphVars := None, kGraphDepVars := None)"
    using T g' by simp
  show "OriginProgram g' = OriginProgram g" using T g' by simp
  fix i
  assume i: "i < unat pn" and un: "\<forall>op\<in>set ops. \<forall>d. m op = Some d \<longrightarrow> unat d \<noteq> i"
  from transfer_loop_untouched [OF tr un] i have "gs1 ! i = ?fresh" by simp
  moreover have "attrs g' |` {kProgramDescs, kFusedVars} = attrs g |` {kProgramDescs, kFusedVars}"
    using T g' by (auto simp: fun_eq_iff restrict_map_def kProgramDescs_def kFusedVars_def
        kGraphVars_def kGraphDepVars_def)
  ultimately show "Nodes (gs ! i) = [] \<and>
           attrs (gs ! i) = fresh_attrs ++ (attrs g |` {kProgramDescs, kFusedVars})"
    using C T i by simp
qed

lemma classify_loop_all_zero:
  assumes c: "classify_loop h ops 0 Map.empty = Some (pn, m)" and ne: "ops \<noteq> []"
    and zero: "\<forall>op\<in>set ops. dev_of h op = 0"
  shows "pn = 1"
proof -
  from classify_loop_place_num_attained [OF c] zero have "pn = 0 \<or> pn = 1" by auto
  moreover from c ne have "1 \<le> pn" by (rule classify_loop_place_num_pos)
  ultimately show ?thesis by auto
qed

lemma move_node_error: "move_node n st = Inl e \<Longrightarrow> e \<noteq> NoPlaceFound"
  by (auto simp: move_node_def RemoveNode_def AddNode_def split: if_splits sum.splits)

lemma handler_error: "handler h ov vs st = Inl e \<Longrightarrow> e \<noteq> NoPlaceFound"
proof (induction vs arbitrary: st)
  case Nil
  then show ?case by simp
next
  case (Cons v vs)
  then show ?case
    by (auto split: if_splits sum.splits var_kind.splits option.splits dest: move_node_error)
qed

lemma transfer_op_error: "transfer_op h op d st = Inl e \<Longrightarrow> e \<noteq> NoPlaceFound"
  by (auto simp: transfer_op_def GraphVars_at_def Get_GraphVars_def Get_GraphDepVars_def
      split: sum.splits option.splits graph_attr.splits if_splits
      dest: move_node_error handler_error)

lemma transfer_loop_error: "transfer_loop h m ops st = Inl e \<Longrightarrow> e \<noteq> NoPlaceFound"
proof (induction ops arbitrary: st)
  case Nil
  then show ?case by simp
next
  case (Cons op ops)
  then show ?case
    by (auto split: option.splits if_splits sum.splits dest: transfer_op_error)
qed

lemma copy_attrs_loop_error: "copy_attrs_loop g gs = Inl e \<Longrightarrow> e \<noteq> NoPlaceFound"
proof (induction gs)
  case Nil
  then show ?case by simp
next
  case (Cons dst gs)
  then show ?case
    by (auto simp: CopyGraphAttrIfExists_ProgramDescs_def CopyGraphAttrIfExists_FusedVars_def
        Set_attr_def split: sum.splits if_splits option.splits graph_attr.splits)
qed

lemma construct_and_transfer_error:
  "construct_and_transfer h g ops pn m = Inl e \<Longrightarrow> e \<noteq> NoPlaceFound"
  by (auto simp: construct_and_transfer_def fresh_graph_eq Erase_def
      split: sum.splits if_splits dest: transfer_loop_error copy_attrs_loop_error)

lemma construct_and_transfer_nonempty:
  assumes "construct_and_transfer h g ops pn m = Inr (gs, g')" and "1 \<le> pn"
  shows "gs \<noteq> []"
proof -
  from assms(2) have "pn \<noteq> 0" by auto
  then have "unat pn \<noteq> 0" by (simp add: unat_eq_0)
  with construct_and_transfer_Inr(1) [OF assms(1)] show ?thesis by auto
qed

text \<open>What a call that returns a non-empty vector went through.\<close>

lemma TrySeparate_success:
  assumes "TrySeparateToMultipleSingleDeviceGraphs h g = Inr (gs, g')" and "gs \<noteq> []"
  obtains pn m where
    "\<not> ContainMultiDeviceOp (OriginProgram g) 1"
    "FilterByNodeWrapper (Nodes g) \<noteq> []"
    "classify_loop h (FilterByNodeWrapper (Nodes g)) 0 Map.empty = Some (pn, m)"
    "independent h (FilterByNodeWrapper (Nodes g))"
    "pn \<noteq> 1"
    "construct_and_transfer h g (FilterByNodeWrapper (Nodes g)) pn m = Inr (gs, g')"
  using assms
  by (auto simp: TrySeparate_eq Let_def split: if_splits option.splits)

lemma independent_cross_device_free:
  assumes c: "classify_loop h ops pn Map.empty = Some (pn', m)"
    and i: "independent h ops"
  shows "cross_device_free h m ops"
proof -
  have m: "\<And>op. m op = (if op \<in> set ops then Some (dev_of h op) else None)"
    using c by (rule classify_loop_lookup)
  have s: "same_device_if_present m d other \<longleftrightarrow> (other \<in> set ops \<longrightarrow> dev_of h other = d)"
    for d other
    by (simp add: same_device_if_present_def m)
  show ?thesis
    unfolding cross_device_free_def
  proof
    fix op
    assume op: "op \<in> set ops"
    with i have
      ins: "\<forall>v\<in>set (Inputs (op_at h op)). \<forall>gen. GeneratedOp (var_at h v) = Some gen \<longrightarrow>
           gen \<in> set ops \<and> dev_of h gen = dev_of h op" and
      outs: "\<forall>v\<in>set (Outputs (op_at h op)). \<forall>p\<in>set (PendingOps (var_at h v)).
           p \<in> set ops \<and> dev_of h p = dev_of h op"
      unfolding independent_def by blast+
    from ins have "\<forall>v\<in>set (Inputs (op_at h op)).
        (case GeneratedOp (var_at h v) of
           None \<Rightarrow> True
         | Some gen \<Rightarrow> same_device_if_present m (dev_of h op) gen)"
      by (simp add: s split: option.splits)
    moreover from outs have "\<forall>v\<in>set (Outputs (op_at h op)).
        \<forall>p\<in>set (PendingOps (var_at h v)). same_device_if_present m (dev_of h op) p"
      by (simp add: s)
    ultimately show "case m op of
        None \<Rightarrow> True
      | Some d \<Rightarrow>
          (\<forall>v\<in>set (Inputs (op_at h op)).
             (case GeneratedOp (var_at h v) of
                None \<Rightarrow> True
              | Some gen \<Rightarrow> same_device_if_present m d gen)) \<and>
          (\<forall>v\<in>set (Outputs (op_at h op)).
             \<forall>p\<in>set (PendingOps (var_at h v)). same_device_if_present m d p)"
      using op by (simp add: m)
  qed
qed








lemma replicate_numeral: "replicate (numeral k) x = x # replicate (pred_numeral k) x"
  by (simp add: numeral_eq_Suc)

lemma list_update_Cons_numeral: "(x # xs)[numeral k := y] = x # xs[pred_numeral k := y]"
  by (simp add: numeral_eq_Suc)

lemmas eval_defs =
  TrySeparateToMultipleSingleDeviceGraphs_def ContainMultiDeviceOp_def kMultiDeviceOps_def
  GetUniqueDeviceIdOfOp_def GetScopeIdxFromOp_def kUndefinedDevIdx_def
  construct_and_transfer_def fresh_graph_def Set_attr_def Has_def new_Graph_def
  kGraphVars_def kGraphDepVars_def kProgramDescs_def kFusedVars_def
  transfer_op_def GraphVars_at_def Get_GraphVars_def Get_GraphDepVars_def
  move_node_def RemoveNode_def AddNode_def ret_vars_emplace_def ret_dummy_vars_emplace_def
  Erase_def CopyGraphAttrIfExists_ProgramDescs_def CopyGraphAttrIfExists_FusedVars_def
  replicate_numeral list_update_Cons_numeral

lemmas ex_defs = ex_heap_def ex_compute_def ex_var_def

lemma ex_graph_separates:
  "TrySeparateToMultipleSingleDeviceGraphs ex_heap ex_graph = Inr (ex_graph_parts, ex_graph_rest)"
  by (simp add: eval_defs ex_defs ex_graph_def ex_graph_parts_def ex_graph_rest_def)

lemma ex_graph_gap_separates:
  "TrySeparateToMultipleSingleDeviceGraphs ex_heap ex_graph_gap =
     Inr (ex_graph_gap_parts, ex_graph_gap_rest)"
  by (simp add: eval_defs ex_defs ex_graph_gap_def ex_graph_gap_parts_def ex_graph_gap_rest_def)

lemma place_num_Max:
  assumes c: "classify_loop h ops 0 Map.empty = Some (pn, m)" and ne: "ops \<noteq> []"
  shows "unat pn = Suc (unat (Max (dev_of h ` set ops)))"
proof -
  from c ne have pos: "1 \<le> pn" by (rule classify_loop_place_num_pos)
  then have "pn \<noteq> 0" by auto
  with classify_loop_place_num_attained [OF c] obtain op0 where
    op0: "op0 \<in> set ops" and pn: "pn = dev_of h op0 + 1" by auto
  have det: "dev_of h op \<noteq> kUndefinedDevIdx" if "op \<in> set ops" for op
    using c that by (rule classify_loop_determined)
  have "dev_of h op \<le> dev_of h op0" if "op \<in> set ops" for op
  proof -
    from classify_loop_place_num_ge [OF c] that have "dev_of h op + 1 \<le> dev_of h op0 + 1"
      by (simp add: pn)
    with det [OF that] det [OF op0] show ?thesis by (simp add: succ_le_succ)
  qed
  with op0 have "Max (dev_of h ` set ops) = dev_of h op0"
    by (intro Max_eqI) auto
  with det [OF op0] show ?thesis by (simp add: pn unat_succ)
qed

section \<open>The claims\<close>

text \<open>
  Claim C1. A call returns a non-empty vector only if the cross-device dependency check
  passes: all op handles are classified, and for every op handle with device index \<open>d\<close>,
  the generating op of each input and the pending ops of each output that are present in
  the classification map have device index \<open>d\<close>. When the classification map exists and
  the condition fails for it, the call returns the empty vector and the graph as it was.
\<close>

theorem cross_device_dependency_check:
  "(TrySeparateToMultipleSingleDeviceGraphs h g = Inr (gs, g') \<and> gs \<noteq> [] \<longrightarrow>
      (\<exists>m. classification h g = Some m \<and>
           cross_device_free h m (FilterByNodeWrapper (Nodes g)))) \<and>
   (classification h g = Some m \<and> \<not> cross_device_free h m (FilterByNodeWrapper (Nodes g)) \<longrightarrow>
      TrySeparateToMultipleSingleDeviceGraphs h g = Inr ([], g))"
proof (intro conjI impI)
  let ?ops = "FilterByNodeWrapper (Nodes g)"
  assume "TrySeparateToMultipleSingleDeviceGraphs h g = Inr (gs, g') \<and> gs \<noteq> []"
  then obtain pn m where c: "classify_loop h ?ops 0 Map.empty = Some (pn, m)"
    and i: "independent h ?ops"
    by (blast elim: TrySeparate_success)
  from c have "classification h g = Some m" by (simp add: classification_def)
  moreover from c i have "cross_device_free h m ?ops"
    by (rule independent_cross_device_free)
  ultimately show "\<exists>m. classification h g = Some m \<and> cross_device_free h m ?ops" by blast
next
  let ?ops = "FilterByNodeWrapper (Nodes g)"
  assume a: "classification h g = Some m \<and> \<not> cross_device_free h m ?ops"
  then obtain pn where c: "classify_loop h ?ops 0 Map.empty = Some (pn, m)"
    by (auto simp: classification_def)
  have "\<not> independent h ?ops"
  proof
    assume "independent h ?ops"
    with c have "cross_device_free h m ?ops"
      by (rule independent_cross_device_free)
    with a show False by simp
  qed
  with c show "TrySeparateToMultipleSingleDeviceGraphs h g = Inr ([], g)"
    by (simp add: TrySeparate_eq Let_def)
qed

theorem cross_device_dependency_check_witness:
  "TrySeparateToMultipleSingleDeviceGraphs ex_heap ex_graph = Inr (ex_graph_parts, ex_graph_rest) \<and>
   ex_graph_parts \<noteq> [] \<and>
   (\<exists>m. classification ex_heap ex_graph = Some m \<and>
        cross_device_free ex_heap m (FilterByNodeWrapper (Nodes ex_graph))) \<and>
   classification ex_heap ex_graph_cross = Some ex_cross_map \<and>
   \<not> cross_device_free ex_heap ex_cross_map (FilterByNodeWrapper (Nodes ex_graph_cross)) \<and>
   TrySeparateToMultipleSingleDeviceGraphs ex_heap ex_graph_cross = Inr ([], ex_graph_cross)"
proof -
  have ne: "ex_graph_parts \<noteq> []" by (simp add: ex_graph_parts_def)
  have c: "classification ex_heap ex_graph_cross = Some ex_cross_map"
    by (simp add: classification_def ex_graph_cross_def ex_cross_map_def ex_defs
        GetUniqueDeviceIdOfOp_def GetScopeIdxFromOp_def kMultiDeviceOps_def kUndefinedDevIdx_def)
  have n: "\<not> cross_device_free ex_heap ex_cross_map (FilterByNodeWrapper (Nodes ex_graph_cross))"
    by (simp add: cross_device_free_def same_device_if_present_def ex_graph_cross_def
        ex_cross_map_def ex_defs)
  from cross_device_dependency_check [of ex_heap ex_graph ex_graph_parts ex_graph_rest]
    cross_device_dependency_check [of ex_heap ex_graph_cross _ _ ex_cross_map]
    ex_graph_separates ne c n
  show ?thesis by blast
qed

text \<open>
  Claim C2. Whenever a call returns the empty vector, the input graph is as it was before
  the call. Each abort condition (a communication op in a sub-block, no op node, an
  undetermined op, a cross-device dependency, one effective device) gives that outcome.
\<close>

theorem abort_leaves_graph_unchanged:
  "(TrySeparateToMultipleSingleDeviceGraphs h g = Inr (gs, g') \<and> gs = [] \<longrightarrow> g' = g) \<and>
   (ContainMultiDeviceOp (OriginProgram g) 1 \<or>
    FilterByNodeWrapper (Nodes g) = [] \<or>
    (\<exists>op\<in>set (FilterByNodeWrapper (Nodes g)). dev_of h op = kUndefinedDevIdx) \<or>
    \<not> independent h (FilterByNodeWrapper (Nodes g)) \<or>
    (\<forall>op\<in>set (FilterByNodeWrapper (Nodes g)). dev_of h op = 0) \<longrightarrow>
      TrySeparateToMultipleSingleDeviceGraphs h g = Inr ([], g))"
proof (intro conjI impI)
  let ?ops = "FilterByNodeWrapper (Nodes g)"
  assume a: "TrySeparateToMultipleSingleDeviceGraphs h g = Inr (gs, g') \<and> gs = []"
  have "gs \<noteq> []" if "classify_loop h ?ops 0 Map.empty = Some (pn, m)" and "?ops \<noteq> []"
    and "construct_and_transfer h g ?ops pn m = Inr (gs, g')" for pn m
    using that classify_loop_place_num_pos construct_and_transfer_nonempty by blast
  with a show "g' = g"
    by (auto simp: TrySeparate_eq Let_def split: if_splits option.splits)
next
  let ?ops = "FilterByNodeWrapper (Nodes g)"
  assume a: "ContainMultiDeviceOp (OriginProgram g) 1 \<or> ?ops = [] \<or>
    (\<exists>op\<in>set ?ops. dev_of h op = kUndefinedDevIdx) \<or> \<not> independent h ?ops \<or>
    (\<forall>op\<in>set ?ops. dev_of h op = 0)"
  then consider
      (veto) "ContainMultiDeviceOp (OriginProgram g) 1 \<or> ?ops = []"
    | (undetermined) "\<exists>op\<in>set ?ops. dev_of h op = kUndefinedDevIdx"
    | (dependent) "\<not> independent h ?ops"
    | (single) "\<forall>op\<in>set ?ops. dev_of h op = 0"
    by blast
  then show "TrySeparateToMultipleSingleDeviceGraphs h g = Inr ([], g)"
  proof cases
    case veto
    then show ?thesis by (auto simp: TrySeparate_eq)
  next
    case undetermined
    then have "classify_loop h ?ops 0 Map.empty = None"
      by (simp add: classify_loop_None_iff)
    then show ?thesis by (simp add: TrySeparate_eq Let_def)
  next
    case dependent
    then show ?thesis by (simp add: TrySeparate_eq Let_def split: option.splits)
  next
    case single
    have "pn = 1" if "classify_loop h ?ops 0 Map.empty = Some (pn, m)" and "?ops \<noteq> []" for pn m
      using that single by (rule classify_loop_all_zero)
    then show ?thesis by (auto simp: TrySeparate_eq Let_def split: option.splits)
  qed
qed

theorem abort_leaves_graph_unchanged_witness:
  "TrySeparateToMultipleSingleDeviceGraphs ex_heap ex_graph_cross = Inr ([], ex_graph_cross) \<and>
   \<not> independent ex_heap (FilterByNodeWrapper (Nodes ex_graph_cross))"
proof -
  have n: "\<not> independent ex_heap (FilterByNodeWrapper (Nodes ex_graph_cross))"
    by (simp add: independent_def ex_graph_cross_def ex_defs dev_of_def GetUniqueDeviceIdOfOp_def
        GetScopeIdxFromOp_def kMultiDeviceOps_def kUndefinedDevIdx_def)
  with abort_leaves_graph_unchanged [of ex_heap ex_graph_cross "[]" ex_graph_cross]
  show ?thesis by blast
qed

text \<open>
  Claim C3, as amended. On a call that returns a non-empty vector, the nodes of the returned
  graphs together are the op nodes of the input graph and those input and output variable
  nodes of its op handles that the input graph holds. These nodes are gone from the input
  graph, every other node stays there, no node is in two returned graphs, and none is both
  in a returned graph and in the input graph.
\<close>

theorem moved_nodes_partition:
  assumes "TrySeparateToMultipleSingleDeviceGraphs h g = Inr (gs, g')" and "gs \<noteq> []"
  shows "all_nodes gs =
           (\<Union>op\<in>set (FilterByNodeWrapper (Nodes g)). incident_nodes h op) \<inter> set (Nodes g) \<and>
         set (Nodes g') =
           set (Nodes g) - (\<Union>op\<in>set (FilterByNodeWrapper (Nodes g)). incident_nodes h op) \<and>
         all_nodes gs \<union> set (Nodes g') = set (Nodes g) \<and>
         disjoint_graphs gs g'"
proof -
  from assms obtain pn m where
    "construct_and_transfer h g (FilterByNodeWrapper (Nodes g)) pn m = Inr (gs, g')"
    by (rule TrySeparate_success)
  note C = construct_and_transfer_Inr [OF this]
  from C(2) C(3) have "all_nodes gs \<union> set (Nodes g') = set (Nodes g)" by blast
  with C(2) C(3) C(4) show ?thesis by simp
qed

theorem moved_nodes_partition_witness:
  "TrySeparateToMultipleSingleDeviceGraphs ex_heap ex_graph = Inr (ex_graph_parts, ex_graph_rest) \<and>
   ex_graph_parts \<noteq> [] \<and>
   all_nodes ex_graph_parts =
     {OpNode 0, VarNode 10, VarNode 11, OpNode 1, VarNode 12, VarNode 13} \<and>
   set (Nodes ex_graph_rest) = {VarNode 30, PlainNode 0} \<and>
   all_nodes ex_graph_parts \<union> set (Nodes ex_graph_rest) = set (Nodes ex_graph) \<and>
   disjoint_graphs ex_graph_parts ex_graph_rest"
proof -
  have ne: "ex_graph_parts \<noteq> []" by (simp add: ex_graph_parts_def)
  have a: "all_nodes ex_graph_parts =
     {OpNode 0, VarNode 10, VarNode 11, OpNode 1, VarNode 12, VarNode 13}"
    by (auto simp: all_nodes_def ex_graph_parts_def)
  have r: "set (Nodes ex_graph_rest) = {VarNode 30, PlainNode 0}"
    by (simp add: ex_graph_rest_def)
  note T = moved_nodes_partition [OF ex_graph_separates ne]
  note u = T [THEN conjunct2, THEN conjunct2, THEN conjunct1]
  note d = T [THEN conjunct2, THEN conjunct2, THEN conjunct2]
  show ?thesis
    by (intro conjI) (rule ex_graph_separates ne a r u d)+
qed

text \<open>
  Claim C3 as stated fails: the input graph \<open>ex_graph\<close> is separated into two graphs, and its
  nodes \<open>VarNode 30\<close> (a variable of no op handle) and \<open>PlainNode 0\<close> are in neither.
\<close>

theorem union_of_parts_counterexample:
  "TrySeparateToMultipleSingleDeviceGraphs ex_heap ex_graph = Inr (ex_graph_parts, ex_graph_rest) \<and>
   ex_graph_parts \<noteq> [] \<and>
   all_nodes ex_graph_parts \<noteq> set (Nodes ex_graph) \<and>
   VarNode 30 \<in> set (Nodes ex_graph) \<and> VarNode 30 \<notin> all_nodes ex_graph_parts"
  by (simp add: ex_graph_separates)
    (auto simp: all_nodes_def ex_graph_parts_def ex_graph_def)

text \<open>
  Claim C4. \<open>GetScopeIdxFromOp\<close> by the kind of the op handle: undetermined for a compute op
  whose type is a communication op, the recorded scope index for any other compute op, the
  recorded scope index for an eager-deletion and for a buffer-sharing op handle, and
  undetermined for every other kind.
\<close>

theorem GetScopeIdxFromOp_by_kind:
  "(kind op = ComputationOpHandle c s \<and> Type c \<in> kMultiDeviceOps \<longrightarrow>
      GetScopeIdxFromOp op = kUndefinedDevIdx) \<and>
   (kind op = ComputationOpHandle c s \<and> Type c \<notin> kMultiDeviceOps \<longrightarrow>
      GetScopeIdxFromOp op = s) \<and>
   (kind op = EagerDeletionOpHandle s \<longrightarrow> GetScopeIdxFromOp op = s) \<and>
   (kind op = ShareTensorBufferOpHandle s \<longrightarrow> GetScopeIdxFromOp op = s) \<and>
   (kind op = OtherOpHandle \<longrightarrow> GetScopeIdxFromOp op = kUndefinedDevIdx)"
  by (simp add: GetScopeIdxFromOp_def)

theorem GetScopeIdxFromOp_by_kind_witness:
  "''allreduce'' \<in> kMultiDeviceOps \<and> ''relu'' \<notin> kMultiDeviceOps \<and>
   GetScopeIdxFromOp (ex_compute ''allreduce'' 0 [] []) = kUndefinedDevIdx \<and>
   GetScopeIdxFromOp (ex_compute ''relu'' 1 [12] [13]) = 1 \<and>
   GetScopeIdxFromOp \<lparr>kind = EagerDeletionOpHandle 1, Inputs = [], Outputs = []\<rparr> = 1 \<and>
   GetScopeIdxFromOp \<lparr>kind = ShareTensorBufferOpHandle 1, Inputs = [], Outputs = []\<rparr> = 1 \<and>
   GetScopeIdxFromOp \<lparr>kind = OtherOpHandle, Inputs = [], Outputs = []\<rparr> = kUndefinedDevIdx"
  using
    GetScopeIdxFromOp_by_kind [of "ex_compute ''allreduce'' 0 [] []"
      "\<lparr>Type = ''allreduce'', Attrs = Map.empty\<rparr>" 0]
    GetScopeIdxFromOp_by_kind [of "ex_compute ''relu'' 1 [12] [13]"
      "\<lparr>Type = ''relu'', Attrs = Map.empty\<rparr>" 1]
    GetScopeIdxFromOp_by_kind [of "\<lparr>kind = EagerDeletionOpHandle 1, Inputs = [], Outputs = []\<rparr>" _ 1]
    GetScopeIdxFromOp_by_kind [of "\<lparr>kind = ShareTensorBufferOpHandle 1, Inputs = [], Outputs = []\<rparr>" _ 1]
    GetScopeIdxFromOp_by_kind [of "\<lparr>kind = OtherOpHandle, Inputs = [], Outputs = []\<rparr>"]
  by (simp add: ex_compute_def kMultiDeviceOps_def)

text \<open>
  Claim C5. For an op handle whose own device index is determined, a connected variable
  (an input or an output) with a recorded scope index different from it makes
  \<open>GetUniqueDeviceIdOfOp\<close> undetermined, and a graph holding the node of such an op handle
  is not separated: the call returns the empty vector and the graph as it was. The witness
  is an op handle with index 2 whose one input variable has index 5.
\<close>

theorem uniqueness_refinement:
  assumes "GetScopeIdxFromOp (op_at h op) \<noteq> kUndefinedDevIdx"
    and "v \<in> set (Inputs (op_at h op)) \<union> set (Outputs (op_at h op))"
    and "vkind (var_at h v) = VarHandle s"
    and "s \<noteq> GetScopeIdxFromOp (op_at h op)"
  shows "GetUniqueDeviceIdOfOp h (op_at h op) = kUndefinedDevIdx \<and>
         (OpNode op \<in> set (Nodes g) \<longrightarrow>
            TrySeparateToMultipleSingleDeviceGraphs h g = Inr ([], g))"
proof -
  from assms have u: "dev_of h op = kUndefinedDevIdx"
    unfolding dev_of_def GetUniqueDeviceIdOfOp_def Let_def in_outs_loop_eq by auto
  have "TrySeparateToMultipleSingleDeviceGraphs h g = Inr ([], g)" if "OpNode op \<in> set (Nodes g)"
  proof -
    from that have "op \<in> set (FilterByNodeWrapper (Nodes g))"
      by (simp add: set_FilterByNodeWrapper)
    with u have "classify_loop h (FilterByNodeWrapper (Nodes g)) 0 Map.empty = None"
      unfolding classify_loop_None_iff by blast
    then show ?thesis by (simp add: TrySeparate_eq Let_def)
  qed
  with u show ?thesis by (simp add: dev_of_def)
qed

theorem uniqueness_refinement_witness:
  "GetScopeIdxFromOp (op_at ex_heap 6) = 2 \<and>
   Inputs (op_at ex_heap 6) = [15] \<and>
   vkind (var_at ex_heap 15) = VarHandle 5 \<and>
   GetUniqueDeviceIdOfOp ex_heap (op_at ex_heap 6) = kUndefinedDevIdx \<and>
   OpNode 6 \<in> set (Nodes ex_graph_mismatch) \<and>
   TrySeparateToMultipleSingleDeviceGraphs ex_heap ex_graph_mismatch = Inr ([], ex_graph_mismatch)"
proof -
  have s: "GetScopeIdxFromOp (op_at ex_heap 6) = 2"
    by (simp add: GetScopeIdxFromOp_def ex_defs kMultiDeviceOps_def)
  have i: "Inputs (op_at ex_heap 6) = [15]" by (simp add: ex_defs)
  have k: "vkind (var_at ex_heap 15) = VarHandle 5" by (simp add: ex_defs)
  have n: "OpNode 6 \<in> set (Nodes ex_graph_mismatch)" by (simp add: ex_graph_mismatch_def)
  have p1: "GetScopeIdxFromOp (op_at ex_heap 6) \<noteq> kUndefinedDevIdx"
    by (simp add: s kUndefinedDevIdx_def)
  have p2: "15 \<in> set (Inputs (op_at ex_heap 6)) \<union> set (Outputs (op_at ex_heap 6))"
    by (simp add: i)
  have p4: "5 \<noteq> GetScopeIdxFromOp (op_at ex_heap 6)" by (simp add: s)
  from uniqueness_refinement [OF p1 p2 k p4, of ex_graph_mismatch] s i k n
  show ?thesis by simp
qed

text \<open>
  Claim C6. When a block of the originating program other than block 0 holds an operator
  whose type is a communication op, the call returns the empty vector and the graph as it
  was.
\<close>

theorem global_veto:
  assumes "1 \<le> i" and "i < length (OriginProgram g)"
    and "t \<in> set (OriginProgram g ! i)" and "t \<in> kMultiDeviceOps"
  shows "TrySeparateToMultipleSingleDeviceGraphs h g = Inr ([], g)"
proof -
  from assms have "ContainMultiDeviceOp (OriginProgram g) 1"
    unfolding ContainMultiDeviceOp_iff by blast
  then show ?thesis by (simp add: TrySeparate_eq)
qed

theorem global_veto_witness:
  "(1::nat) < length (OriginProgram ex_graph_veto) \<and>
   ''c_allreduce_sum'' \<in> set (OriginProgram ex_graph_veto ! 1) \<and>
   ''c_allreduce_sum'' \<in> kMultiDeviceOps \<and>
   TrySeparateToMultipleSingleDeviceGraphs ex_heap ex_graph_veto = Inr ([], ex_graph_veto)"
proof -
  have a: "(1::nat) < length (OriginProgram ex_graph_veto)"
    and b: "''c_allreduce_sum'' \<in> set (OriginProgram ex_graph_veto ! 1)"
    and c: "''c_allreduce_sum'' \<in> kMultiDeviceOps"
    by (simp_all add: ex_graph_veto_def kMultiDeviceOps_def)
  from global_veto [OF order_refl a b c, of ex_heap] a b c show ?thesis by simp
qed

text \<open>
  Claim C7. A graph without op nodes, and a graph all of whose op handles resolve to
  device index 0, are not separated: the call returns the empty vector and the graph as it
  was.
\<close>

theorem degenerate_inputs:
  "((\<forall>op. OpNode op \<notin> set (Nodes g)) \<longrightarrow>
      TrySeparateToMultipleSingleDeviceGraphs h g = Inr ([], g)) \<and>
   ((\<forall>op\<in>set (FilterByNodeWrapper (Nodes g)). dev_of h op = 0) \<longrightarrow>
      TrySeparateToMultipleSingleDeviceGraphs h g = Inr ([], g))"
proof (intro conjI impI)
  assume "\<forall>op. OpNode op \<notin> set (Nodes g)"
  then have "set (FilterByNodeWrapper (Nodes g)) = {}"
    by (simp add: set_FilterByNodeWrapper)
  then show "TrySeparateToMultipleSingleDeviceGraphs h g = Inr ([], g)"
    by (simp add: TrySeparate_eq)
next
  let ?ops = "FilterByNodeWrapper (Nodes g)"
  assume zero: "\<forall>op\<in>set ?ops. dev_of h op = 0"
  have "pn = 1" if "classify_loop h ?ops 0 Map.empty = Some (pn, m)" and "?ops \<noteq> []" for pn m
    using that zero by (rule classify_loop_all_zero)
  then show "TrySeparateToMultipleSingleDeviceGraphs h g = Inr ([], g)"
    by (auto simp: TrySeparate_eq Let_def split: option.splits)
qed

theorem degenerate_inputs_witness:
  "(\<forall>op. OpNode op \<notin> set (Nodes ex_graph_no_ops)) \<and>
   TrySeparateToMultipleSingleDeviceGraphs ex_heap ex_graph_no_ops = Inr ([], ex_graph_no_ops) \<and>
   FilterByNodeWrapper (Nodes ex_graph_single) = [0] \<and> dev_of ex_heap 0 = 0 \<and>
   TrySeparateToMultipleSingleDeviceGraphs ex_heap ex_graph_single = Inr ([], ex_graph_single)"
proof -
  have a: "\<forall>op. OpNode op \<notin> set (Nodes ex_graph_no_ops)"
    by (simp add: ex_graph_no_ops_def)
  have b: "FilterByNodeWrapper (Nodes ex_graph_single) = [0]"
    by (simp add: ex_graph_single_def)
  have c: "dev_of ex_heap 0 = 0"
    by (simp add: dev_of_def GetUniqueDeviceIdOfOp_def GetScopeIdxFromOp_def ex_defs
        kMultiDeviceOps_def kUndefinedDevIdx_def)
  from degenerate_inputs [of ex_graph_no_ops ex_heap] degenerate_inputs [of ex_graph_single ex_heap]
    a b c
  show ?thesis by simp
qed




text \<open>
  Claim C9. When the op handles are not empty and all of them are determined, the device
  count that the first loop computes is at least 1, and no call ends in the failure that
  the check of the device count raises.
\<close>

theorem place_count_positive:
  "(FilterByNodeWrapper (Nodes g) \<noteq> [] \<and>
    classify_loop h (FilterByNodeWrapper (Nodes g)) 0 Map.empty = Some (place_num, m) \<longrightarrow>
      1 \<le> place_num) \<and>
   TrySeparateToMultipleSingleDeviceGraphs h g \<noteq> Inl NoPlaceFound"
proof
  show "FilterByNodeWrapper (Nodes g) \<noteq> [] \<and>
    classify_loop h (FilterByNodeWrapper (Nodes g)) 0 Map.empty = Some (place_num, m) \<longrightarrow>
      1 \<le> place_num"
    using classify_loop_place_num_pos by blast
  show "TrySeparateToMultipleSingleDeviceGraphs h g \<noteq> Inl NoPlaceFound"
    by (auto simp: TrySeparate_eq Let_def split: option.splits dest: construct_and_transfer_error)
qed

theorem place_count_positive_witness:
  "FilterByNodeWrapper (Nodes ex_graph_cross) \<noteq> [] \<and>
   classify_loop ex_heap (FilterByNodeWrapper (Nodes ex_graph_cross)) 0 Map.empty =
     Some (2, ex_cross_map) \<and>
   (1 :: size_t) \<le> 2 \<and>
   TrySeparateToMultipleSingleDeviceGraphs ex_heap ex_graph_cross \<noteq> Inl NoPlaceFound"
proof -
  have a: "FilterByNodeWrapper (Nodes ex_graph_cross) \<noteq> []"
    by (simp add: ex_graph_cross_def)
  have b: "classify_loop ex_heap (FilterByNodeWrapper (Nodes ex_graph_cross)) 0 Map.empty =
     Some (2, ex_cross_map)"
    by (simp add: ex_graph_cross_def ex_cross_map_def ex_defs
        GetUniqueDeviceIdOfOp_def GetScopeIdxFromOp_def kMultiDeviceOps_def kUndefinedDevIdx_def)
  from place_count_positive [of ex_graph_cross ex_heap 2 ex_cross_map] a b
  show ?thesis by simp
qed

text \<open>
  Claim C10, as amended. On a call that returns a non-empty vector, the length of the
  vector is one plus the largest device index of an op handle, and at least 2. The graph at
  a position that is the device index of no op handle holds no node; its side-tables are
  the two freshly created empty ones, together with copies of the program-description list
  and of the fused-variable table of the input graph when the input graph has them.
\<close>

theorem result_length_and_gaps:
  assumes "TrySeparateToMultipleSingleDeviceGraphs h g = Inr (gs, g')" and "gs \<noteq> []"
  shows "length gs = Suc (unat (Max (dev_of h ` set (FilterByNodeWrapper (Nodes g))))) \<and>
         2 \<le> length gs \<and>
         (\<forall>i<length gs. i \<notin> unat ` dev_of h ` set (FilterByNodeWrapper (Nodes g)) \<longrightarrow>
            Nodes (gs ! i) = [] \<and>
            attrs (gs ! i) = fresh_attrs ++ (attrs g |` {kProgramDescs, kFusedVars}))"
proof -
  let ?ops = "FilterByNodeWrapper (Nodes g)"
  from assms obtain pn m where ne: "?ops \<noteq> []"
    and c: "classify_loop h ?ops 0 Map.empty = Some (pn, m)"
    and n1: "pn \<noteq> 1"
    and ct: "construct_and_transfer h g ?ops pn m = Inr (gs, g')"
    by (rule TrySeparate_success)
  note C = construct_and_transfer_Inr [OF ct]
  from c ne have "1 \<le> pn" by (rule classify_loop_place_num_pos)
  with n1 have "1 < pn" by simp
  then have "1 < unat pn" by (simp add: word_less_nat_alt)
  with C(1) have two: "2 \<le> length gs" by simp
  from C(1) place_num_Max [OF c ne]
  have len: "length gs = Suc (unat (Max (dev_of h ` set ?ops)))" by simp
  have gap: "Nodes (gs ! i) = [] \<and>
            attrs (gs ! i) = fresh_attrs ++ (attrs g |` {kProgramDescs, kFusedVars})"
    if i: "i < length gs" and un: "i \<notin> unat ` dev_of h ` set ?ops" for i
  proof -
    have "\<forall>op\<in>set ?ops. \<forall>d. m op = Some d \<longrightarrow> unat d \<noteq> i"
      using un by (auto simp: classify_loop_lookup [OF c])
    with C(7) [of i] i C(1) show ?thesis by simp
  qed
  from len two gap show ?thesis by blast
qed

theorem result_length_and_gaps_witness:
  "TrySeparateToMultipleSingleDeviceGraphs ex_heap ex_graph_gap =
     Inr (ex_graph_gap_parts, ex_graph_gap_rest) \<and>
   ex_graph_gap_parts \<noteq> [] \<and>
   length ex_graph_gap_parts = 3 \<and>
   unat ` dev_of ex_heap ` set (FilterByNodeWrapper (Nodes ex_graph_gap)) = {0, 2} \<and>
   Nodes (ex_graph_gap_parts ! 1) = [] \<and>
   attrs (ex_graph_gap_parts ! 1) =
     fresh_attrs ++ (attrs ex_graph_gap |` {kProgramDescs, kFusedVars})"
proof -
  have ne: "ex_graph_gap_parts \<noteq> []" and len: "length ex_graph_gap_parts = 3"
    by (simp_all add: ex_graph_gap_parts_def)
  have d: "unat ` dev_of ex_heap ` set (FilterByNodeWrapper (Nodes ex_graph_gap)) = {0, 2}"
    by (simp add: ex_graph_gap_def dev_of_def GetUniqueDeviceIdOfOp_def GetScopeIdxFromOp_def
        ex_defs kMultiDeviceOps_def kUndefinedDevIdx_def)
  from result_length_and_gaps [OF ex_graph_gap_separates ne] ex_graph_gap_separates ne len d
  show ?thesis by simp
qed

text \<open>
  Claim C10 as stated fails: the op handles of \<open>ex_graph_gap\<close> are on the devices 0 and 2,
  and the graph returned at position 1 holds a third side-table, the copy of the
  program-description list of the input graph.
\<close>

theorem gap_graph_side_tables_counterexample:
  "TrySeparateToMultipleSingleDeviceGraphs ex_heap ex_graph_gap =
     Inr (ex_graph_gap_parts, ex_graph_gap_rest) \<and>
   FilterByNodeWrapper (Nodes ex_graph_gap) = [0, 2] \<and>
   dev_of ex_heap 0 = 0 \<and> dev_of ex_heap 2 = 2 \<and>
   attrs (ex_graph_gap_parts ! 1) kProgramDescs = Some (ProgramDescsAttr [[[''relu'']]]) \<and>
   dom (attrs (ex_graph_gap_parts ! 1)) \<noteq> {kGraphVars, kGraphDepVars}"
proof -
  have "kProgramDescs \<in> dom (attrs (ex_graph_gap_parts ! 1))"
    by (simp add: ex_graph_gap_parts_def)
  moreover have "kProgramDescs \<notin> {kGraphVars, kGraphDepVars}"
    by (simp add: kProgramDescs_def kGraphVars_def kGraphDepVars_def)
  ultimately have "dom (attrs (ex_graph_gap_parts ! 1)) \<noteq> {kGraphVars, kGraphDepVars}"
    by blast
  then show ?thesis
    by (simp add: ex_graph_gap_separates)
      (simp add: ex_graph_gap_def ex_graph_gap_parts_def dev_of_def GetUniqueDeviceIdOfOp_def
        GetScopeIdxFromOp_def ex_defs kMultiDeviceOps_def kUndefinedDevIdx_def)
qed

end
